theory Spec2Isabelle
  imports Main
begin

section \<open>Python values\<close>

text \<open>
  The module \<^verbatim>\<open>Fabric_method.py\<close> defines a data class \<^verbatim>\<open>Song\<close> and four serializer
  classes. A Python \<^verbatim>\<open>str\<close> is a sequence of Unicode code points, so a string is modelled
  as a list of code points (natural numbers below \<^verbatim>\<open>0x110000\<close>), not as a list of bytes.
  ASCII literals of the source are written \<open>ascii ''...''\<close>.
\<close>

type_synonym pystr = "nat list"

abbreviation (input) ascii :: "string \<Rightarrow> pystr" where
  "ascii s \<equiv> map of_char s"

text \<open>
  The fields of a \<^verbatim>\<open>Song\<close> are untyped in the source. The values considered are the two
  kinds the specification names for them: strings and (unbounded) integers.
\<close>

datatype pyval = PStr pystr | PInt int

text \<open>Truth value of an optional attribute, as tested by \<^verbatim>\<open>if text:\<close>.\<close>

fun truthy :: "pyval option \<Rightarrow> bool" where
  "truthy None = False"
| "truthy (Some (PStr s)) = (s \<noteq> [])"
| "truthy (Some (PInt i)) = (i \<noteq> 0)"

text \<open>
  The exceptions that can arise:
  \<^item> \<open>ValueError v\<close>: \<^verbatim>\<open>raise ValueError(format)\<close>, the detail is the offending tag;
  \<^item> \<open>TypeError v\<close>: ElementTree's \<^verbatim>\<open>TypeError("cannot serialize %r (type %s)")\<close>
    for a value \<open>v\<close> that is not a string;
  \<^item> \<open>ArityError k n\<close>: the \<^verbatim>\<open>TypeError\<close> of a call that passes \<open>n\<close> positional
    arguments to a function of \<open>k\<close> parameters;
  \<^item> \<open>NameError x\<close>: the name \<open>x\<close> is not defined;
  \<^item> \<open>DigitLimitError\<close>: the \<^verbatim>\<open>ValueError\<close> "Exceeds the limit (4300 digits) for integer
    string conversion" of a conversion between an integer and its decimal text;
  \<^item> \<open>RecursionError\<close>: the serializer does not come back from a cyclic element structure.
\<close>

datatype error =
    ValueError pyval
  | TypeError pyval
  | ArityError nat nat
  | NameError pystr
  | DigitLimitError
  | RecursionError

section \<open>The data class\<close>

text \<open>
  \<^verbatim>\<open>
  class Song:
      def __init__(self, song_id, title, artist):
          self.song_id = song_id
          self.title = title
          self.artist = artist
  \<close>
\<close>

record Song =
  song_id :: pyval
  title :: pyval
  artist :: pyval

section \<open>The library calls of the encoders\<close>

text \<open>
  The encoders call \<^verbatim>\<open>json.dumps\<close> and \<^verbatim>\<open>xml.etree.ElementTree\<close> of the Python
  standard library. Their definitions below follow the library's Python code
  (\<^verbatim>\<open>json/encoder.py\<close> and \<^verbatim>\<open>xml/etree/ElementTree.py\<close> of CPython 3.11), for the
  arguments the source passes: a dictionary with string keys whose values are strings or
  integers, and an element tree written with \<^verbatim>\<open>encoding='unicode'\<close>. The interpreter's
  limit on the number of digits of an integer converted to or from text is the default,
  4300 digits (\<^verbatim>\<open>sys.get_int_max_str_digits()\<close>).
\<close>

subsection \<open>\<^verbatim>\<open>str.replace\<close> with a one-character pattern\<close>

definition str_replace :: "nat \<Rightarrow> pystr \<Rightarrow> pystr \<Rightarrow> pystr" where
  "str_replace old new s = concat (map (\<lambda>c. if c = old then new else [c]) s)"

subsection \<open>\<^verbatim>\<open>json.dumps\<close>\<close>

text \<open>\<^verbatim>\<open>'{0:04x}'.format(n)\<close> for \<open>n < 0x10000\<close>: four lower-case hexadecimal digits.\<close>

definition hex_digit :: "nat \<Rightarrow> nat" where
  "hex_digit d = (if d < 10 then 0x30 + d else 0x57 + d)"

definition hex4 :: "nat \<Rightarrow> pystr" where
  "hex4 n = [hex_digit (n div 4096 mod 16), hex_digit (n div 256 mod 16),
             hex_digit (n div 16 mod 16), hex_digit (n mod 16)]"

text \<open>
  \<^verbatim>\<open>ESCAPE_DCT\<close>: the short escapes, and \<^verbatim>\<open>\u00XX\<close> for the other control characters
  (added by the \<^verbatim>\<open>setdefault\<close> loop over \<^verbatim>\<open>range(0x20)\<close>).
\<close>

definition ESCAPE_DCT :: "nat \<Rightarrow> pystr option" where
  "ESCAPE_DCT c =
     (if c = 0x5C then Some [0x5C, 0x5C]
      else if c = 0x22 then Some [0x5C, 0x22]
      else if c = 0x08 then Some [0x5C, 0x62]
      else if c = 0x0C then Some [0x5C, 0x66]
      else if c = 0x0A then Some [0x5C, 0x6E]
      else if c = 0x0D then Some [0x5C, 0x72]
      else if c = 0x09 then Some [0x5C, 0x74]
      else if c < 0x20 then Some ([0x5C, 0x75] @ hex4 c)
      else None)"

text \<open>
  The \<^verbatim>\<open>replace\<close> callback of \<^verbatim>\<open>py_encode_basestring_ascii\<close>. For \<open>n < 0x100000\<close> the
  library's \<^verbatim>\<open>0xd800 | ((n >> 10) & 0x3ff)\<close> and \<^verbatim>\<open>0xdc00 | (n & 0x3ff)\<close> are the sums
  written here, since the right operands are below \<open>0x400\<close>.
\<close>

definition replace_match :: "nat \<Rightarrow> pystr" where
  "replace_match c =
     (case ESCAPE_DCT c of
        Some r \<Rightarrow> r
      | None \<Rightarrow>
          if c < 0x10000 then [0x5C, 0x75] @ hex4 c
          else
            let n = c - 0x10000;
                s1 = 0xD800 + (n div 1024) mod 1024;
                s2 = 0xDC00 + n mod 1024
            in [0x5C, 0x75] @ hex4 s1 @ [0x5C, 0x75] @ hex4 s2)"

text \<open>\<^verbatim>\<open>ESCAPE_ASCII = re.compile(r'([\\"]|[^\ -~])')\<close>.\<close>

definition ESCAPE_ASCII :: "nat \<Rightarrow> bool" where
  "ESCAPE_ASCII c \<longleftrightarrow> c = 0x5C \<or> c = 0x22 \<or> \<not> (0x20 \<le> c \<and> c \<le> 0x7E)"

definition encode_char :: "nat \<Rightarrow> pystr" where
  "encode_char c = (if ESCAPE_ASCII c then replace_match c else [c])"

definition encode_basestring_ascii :: "pystr \<Rightarrow> pystr" where
  "encode_basestring_ascii s = [0x22] @ concat (map encode_char s) @ [0x22]"

text \<open>
  \<^verbatim>\<open>int.__repr__\<close>: decimal digits, with a minus sign for a negative number. The
  conversion raises when the number has more digits than the limit; the sign is not
  counted.
\<close>

definition max_str_digits :: nat where
  "max_str_digits = 4300"

fun nat_digits :: "nat \<Rightarrow> pystr" where
  "nat_digits n = (if n < 10 then [0x30 + n] else nat_digits (n div 10) @ [0x30 + n mod 10])"

declare nat_digits.simps [simp del]

definition int_decimal :: "int \<Rightarrow> pystr" where
  "int_decimal i = (if i < 0 then 0x2D # nat_digits (nat (- i)) else nat_digits (nat i))"

definition int_repr :: "int \<Rightarrow> error + pystr" where
  "int_repr i =
     (if max_str_digits < length (nat_digits (nat \<bar>i\<bar>)) then Inl DigitLimitError
      else Inr (int_decimal i))"

fun encode_value :: "pyval \<Rightarrow> error + pystr" where
  "encode_value (PStr s) = Inr (encode_basestring_ascii s)"
| "encode_value (PInt i) = int_repr i"

text \<open>
  A dictionary literal is an association list in insertion order, which is the order
  in which \<^verbatim>\<open>json.dumps\<close> writes the items: \<^verbatim>\<open>key: value\<close> joined by \<^verbatim>\<open>', '\<close>.
\<close>

definition encode_item :: "pystr \<times> pyval \<Rightarrow> error + pystr" where
  "encode_item kv =
     (case encode_value (snd kv) of
        Inl e \<Rightarrow> Inl e
      | Inr v \<Rightarrow> Inr (encode_basestring_ascii (fst kv) @ ascii '': '' @ v))"

fun encode_items :: "(pystr \<times> pyval) list \<Rightarrow> error + pystr list" where
  "encode_items [] = Inr []"
| "encode_items (kv # dct) =
     (case encode_item kv of
        Inl e \<Rightarrow> Inl e
      | Inr x \<Rightarrow>
          (case encode_items dct of
             Inl e \<Rightarrow> Inl e
           | Inr xs \<Rightarrow> Inr (x # xs)))"

fun join_items :: "pystr list \<Rightarrow> pystr" where
  "join_items [] = []"
| "join_items [x] = x"
| "join_items (x # y # ys) = x @ ascii '', '' @ join_items (y # ys)"

definition json_dumps :: "(pystr \<times> pyval) list \<Rightarrow> error + pystr" where
  "json_dumps dct =
     (if dct = [] then Inr (ascii ''{}'')
      else
        (case encode_items dct of
           Inl e \<Rightarrow> Inl e
         | Inr items \<Rightarrow> Inr (ascii ''{'' @ join_items items @ ascii ''}'')))"

subsection \<open>\<^verbatim>\<open>xml.etree.ElementTree\<close>\<close>

text \<open>
  An element: tag, attributes in insertion order, text (\<^verbatim>\<open>None\<close> until assigned) and
  children. The source never sets a tail.
\<close>

datatype element = Element pystr "(pystr \<times> pyval) list" "pyval option" "element list"

text \<open>
  \<^verbatim>\<open>_escape_cdata\<close> and \<^verbatim>\<open>_escape_attrib\<close>: the replacements are made one after the
  other, each guarded by a membership test; on a value that is not a string the test
  raises and the library turns that into its serialization \<^verbatim>\<open>TypeError\<close>.
\<close>

definition replace_if_in :: "nat \<Rightarrow> pystr \<Rightarrow> pystr \<Rightarrow> pystr" where
  "replace_if_in old new s = (if old \<in> set s then str_replace old new s else s)"

fun escape_cdata :: "pyval \<Rightarrow> error + pystr" where
  "escape_cdata (PStr s) =
     Inr (replace_if_in 0x3E (ascii ''&gt;'')
           (replace_if_in 0x3C (ascii ''&lt;'')
             (replace_if_in 0x26 (ascii ''&amp;'') s)))"
| "escape_cdata (PInt i) = Inl (TypeError (PInt i))"

fun escape_attrib :: "pyval \<Rightarrow> error + pystr" where
  "escape_attrib (PStr s) =
     Inr (replace_if_in 0x09 (ascii ''&#09;'')
           (replace_if_in 0x0A (ascii ''&#10;'')
             (replace_if_in 0x0D (ascii ''&#13;'')
               (replace_if_in 0x22 (ascii ''&quot;'')
                 (replace_if_in 0x3E (ascii ''&gt;'')
                   (replace_if_in 0x3C (ascii ''&lt;'')
                     (replace_if_in 0x26 (ascii ''&amp;'') s)))))))"
| "escape_attrib (PInt i) = Inl (TypeError (PInt i))"

text \<open>
  \<^verbatim>\<open>_serialize_xml\<close> for elements without namespaces, comments or tails: the start tag
  with its attributes, then either the short form \<^verbatim>\<open> />\<close> (no text and no children) or
  the text, the children and the end tag. The first failing step raises.
\<close>

fun serialize_items :: "(pystr \<times> pyval) list \<Rightarrow> error + pystr" where
  "serialize_items [] = Inr []"
| "serialize_items ((k, v) # items) =
     (case escape_attrib v of
        Inl e \<Rightarrow> Inl e
      | Inr v' \<Rightarrow>
          (case serialize_items items of
             Inl e \<Rightarrow> Inl e
           | Inr rest \<Rightarrow> Inr (ascii '' '' @ k @ ascii ''=\"'' @ v' @ ascii ''\"'' @ rest)))"

fun serialize_xml :: "element \<Rightarrow> error + pystr"
  and serialize_children :: "element list \<Rightarrow> error + pystr" where
  "serialize_xml (Element tag items text kids) =
     (case serialize_items items of
        Inl e \<Rightarrow> Inl e
      | Inr attrs \<Rightarrow>
          if truthy text \<or> kids \<noteq> [] then
            (case (if truthy text then escape_cdata (the text) else Inr []) of
               Inl e \<Rightarrow> Inl e
             | Inr t \<Rightarrow>
                 (case serialize_children kids of
                    Inl e \<Rightarrow> Inl e
                  | Inr ks \<Rightarrow>
                      Inr (ascii ''<'' @ tag @ attrs @ ascii ''>'' @ t @ ks
                           @ ascii ''</'' @ tag @ ascii ''>'')))
          else Inr (ascii ''<'' @ tag @ attrs @ ascii '' />''))"
| "serialize_children [] = Inr []"
| "serialize_children (e # es) =
     (case serialize_xml e of
        Inl err \<Rightarrow> Inl err
      | Inr x \<Rightarrow>
          (case serialize_children es of
             Inl err \<Rightarrow> Inl err
           | Inr xs \<Rightarrow> Inr (x @ xs)))"

text \<open>
  Elements are mutable objects that the source shares by reference: \<^verbatim>\<open>et.SubElement\<close>
  appends the new child to its parent, and the child's \<^verbatim>\<open>text\<close> is assigned afterwards.
  The store holds the element objects; a reference is an index into it, and the only
  references are the ones returned by an allocation.
\<close>

record elem_obj =
  elem_tag :: pystr
  elem_attrib :: "(pystr \<times> pyval) list"
  elem_text :: "pyval option"
  elem_children :: "nat list"

type_synonym heap = "elem_obj list"

definition et_Element :: "pystr \<Rightarrow> (pystr \<times> pyval) list \<Rightarrow> heap \<Rightarrow> nat \<times> heap" where
  "et_Element tag attrib h =
     (length h,
      h @ [\<lparr>elem_tag = tag, elem_attrib = attrib, elem_text = None, elem_children = []\<rparr>])"

definition et_SubElement :: "nat \<Rightarrow> pystr \<Rightarrow> heap \<Rightarrow> nat \<times> heap" where
  "et_SubElement parent tag h =
     (let (child, h1) = et_Element tag [] h
      in (child,
          h1[parent := (h1 ! parent)\<lparr>elem_children := elem_children (h1 ! parent) @ [child]\<rparr>]))"

definition set_text :: "nat \<Rightarrow> pyval \<Rightarrow> heap \<Rightarrow> heap" where
  "set_text a v h = h[a := (h ! a)\<lparr>elem_text := Some v\<rparr>]"

text \<open>
  The tree below a reference. The depth of a tree without cycles is at most the number
  of objects, so this much fuel reads every such tree; on a cycle the result is \<open>None\<close>.
\<close>

fun read_element :: "nat \<Rightarrow> heap \<Rightarrow> nat \<Rightarrow> element option" where
  "read_element 0 h a = None"
| "read_element (Suc n) h a =
     (if a < length h then
        (case those (map (read_element n h) (elem_children (h ! a))) of
           None \<Rightarrow> None
         | Some kids \<Rightarrow>
             Some (Element (elem_tag (h ! a)) (elem_attrib (h ! a)) (elem_text (h ! a)) kids))
      else None)"

text \<open>
  \<^verbatim>\<open>et.tostring(element, encoding='unicode')\<close>: the text written by \<^verbatim>\<open>_serialize_xml\<close>;
  with this encoding no XML declaration is written.
\<close>

definition et_tostring :: "heap \<Rightarrow> nat \<Rightarrow> error + pystr" where
  "et_tostring h a =
     (case read_element (length h) h a of
        None \<Rightarrow> Inl RecursionError
      | Some e \<Rightarrow> serialize_xml e)"

section \<open>The serializer classes\<close>

text \<open>
  Every method takes the store and returns its result with the store it leaves. None of
  them assigns to the song or to the serializer object, which has no attributes.
\<close>

type_synonym result = "(error + pystr) \<times> heap"

abbreviation (input) JSON :: pyval where "JSON \<equiv> PStr (ascii ''JSON'')"
abbreviation (input) XML :: pyval where "XML \<equiv> PStr (ascii ''XML'')"

subsection \<open>\<^verbatim>\<open>SongSerializerBad\<close>\<close>

definition SongSerializerBad_serialize :: "Song \<Rightarrow> pyval \<Rightarrow> heap \<Rightarrow> result" where
  "SongSerializerBad_serialize song format h =
     (if format = JSON then
        (let song_info = [(ascii ''id'', song_id song), (ascii ''title'', title song),
                          (ascii ''artist'', artist song)]
         in (json_dumps song_info, h))
      else if format = XML then
        (let (song_info, h) = et_Element (ascii ''song'') [(ascii ''id'', song_id song)] h;
             (title_e, h) = et_SubElement song_info (ascii ''title'') h;
             h = set_text title_e (title song) h;
             (artist_e, h) = et_SubElement song_info (ascii ''artist'') h;
             h = set_text artist_e (artist song) h
         in (et_tostring h song_info, h))
      else (Inl (ValueError format), h))"

subsection \<open>\<^verbatim>\<open>SongSerializerWihoutSolidDependecies\<close>\<close>

definition WihoutSolidDependecies_serialize_to_json :: "Song \<Rightarrow> heap \<Rightarrow> result" where
  "WihoutSolidDependecies_serialize_to_json song h =
     (let payload = [(ascii ''id'', song_id song), (ascii ''title'', title song),
                     (ascii ''artist'', artist song)]
      in (json_dumps payload, h))"

definition WihoutSolidDependecies_serialize_to_xml :: "Song \<Rightarrow> heap \<Rightarrow> result" where
  "WihoutSolidDependecies_serialize_to_xml song h =
     (let (song_element, h) = et_Element (ascii ''song'') [(ascii ''id'', song_id song)] h;
          (title_e, h) = et_SubElement song_element (ascii ''title'') h;
          h = set_text title_e (title song) h;
          (artist_e, h) = et_SubElement song_element (ascii ''artist'') h;
          h = set_text artist_e (artist song) h
      in (et_tostring h song_element, h))"

definition SongSerializerWihoutSolidDependecies_serialize ::
    "Song \<Rightarrow> pyval \<Rightarrow> heap \<Rightarrow> result" where
  "SongSerializerWihoutSolidDependecies_serialize song format h =
     (if format = JSON then WihoutSolidDependecies_serialize_to_json song h
      else if format = XML then WihoutSolidDependecies_serialize_to_xml song h
      else (Inl (ValueError format), h))"

subsection \<open>\<^verbatim>\<open>SongSerializerBasicFabric\<close>\<close>

definition serialize_to_json :: "Song \<Rightarrow> heap \<Rightarrow> result" where
  "serialize_to_json song h =
     (let payload = [(ascii ''id'', song_id song), (ascii ''title'', title song),
                     (ascii ''artist'', artist song)]
      in (json_dumps payload, h))"

definition serialize_to_xml :: "Song \<Rightarrow> heap \<Rightarrow> result" where
  "serialize_to_xml song h =
     (let (song_element, h) = et_Element (ascii ''song'') [(ascii ''id'', song_id song)] h;
          (title_e, h) = et_SubElement song_element (ascii ''title'') h;
          h = set_text title_e (title song) h;
          (artist_e, h) = et_SubElement song_element (ascii ''artist'') h;
          h = set_text artist_e (artist song) h
      in (et_tostring h song_element, h))"

text \<open>The factory method returns the encoder (a bound method) or raises.\<close>

definition get_serializer :: "pyval \<Rightarrow> error + (Song \<Rightarrow> heap \<Rightarrow> result)" where
  "get_serializer format =
     (if format = JSON then Inr serialize_to_json
      else if format = XML then Inr serialize_to_xml
      else Inl (ValueError format))"

definition serialize :: "Song \<Rightarrow> pyval \<Rightarrow> heap \<Rightarrow> result" where
  "serialize song format h =
     (case get_serializer format of
        Inl e \<Rightarrow> (Inl e, h)
      | Inr serializer \<Rightarrow> serializer song h)"

subsection \<open>\<^verbatim>\<open>SongSerializerStatiocBasicFabric\<close>\<close>

text \<open>
  The functions of this class take no \<^verbatim>\<open>self\<close> parameter and carry no decorator, yet
  \<^verbatim>\<open>serialize\<close> and \<^verbatim>\<open>_get_serializer\<close> read the name \<^verbatim>\<open>self\<close>. A name is looked up
  among the function's parameters and local variables, then among the names the module
  binds; \<^verbatim>\<open>self\<close> is not a built-in name.
\<close>

definition module_globals :: "pystr list" where
  "module_globals =
     [ascii ''json'', ascii ''et'', ascii ''Song'', ascii ''SongSerializerBad'',
      ascii ''SongSerializerWihoutSolidDependecies'', ascii ''SongSerializerBasicFabric'',
      ascii ''SongSerializerStatiocBasicFabric'']"

definition load_name :: "pystr list \<Rightarrow> pystr \<Rightarrow> error + unit" where
  "load_name locals name =
     (if name \<in> set locals \<or> name \<in> set module_globals then Inr ()
      else Inl (NameError name))"

text \<open>
  A call that passes \<open>nargs\<close> positional arguments to a function of \<open>nparams\<close> parameters
  runs the body only when the numbers agree.
\<close>

definition call_function :: "nat \<Rightarrow> nat \<Rightarrow> result \<Rightarrow> heap \<Rightarrow> result" where
  "call_function nparams nargs body h =
     (if nargs = nparams then body else (Inl (ArityError nparams nargs), h))"

definition Statioc_serialize_to_json :: "Song \<Rightarrow> heap \<Rightarrow> result" where
  "Statioc_serialize_to_json song h =
     (let payload = [(ascii ''id'', song_id song), (ascii ''title'', title song),
                     (ascii ''artist'', artist song)]
      in (json_dumps payload, h))"

definition Statioc_serialize_to_xml :: "Song \<Rightarrow> heap \<Rightarrow> result" where
  "Statioc_serialize_to_xml song h =
     (let (song_element, h) = et_Element (ascii ''song'') [(ascii ''id'', song_id song)] h;
          (title_e, h) = et_SubElement song_element (ascii ''title'') h;
          h = set_text title_e (title song) h;
          (artist_e, h) = et_SubElement song_element (ascii ''artist'') h;
          h = set_text artist_e (artist song) h
      in (et_tostring h song_element, h))"

text \<open>
  Where the lookup of \<^verbatim>\<open>self\<close> succeeded, the attribute would be taken from the object
  found; the continuations below are the class's own functions, which is what the
  attribute names say. The lookup never succeeds.
\<close>

definition Statioc_get_serializer :: "pyval \<Rightarrow> error + (Song \<Rightarrow> heap \<Rightarrow> result)" where
  "Statioc_get_serializer format =
     (if format = JSON then
        (case load_name [ascii ''format''] (ascii ''self'') of
           Inl e \<Rightarrow> Inl e
         | Inr _ \<Rightarrow> Inr Statioc_serialize_to_json)
      else if format = XML then
        (case load_name [ascii ''format''] (ascii ''self'') of
           Inl e \<Rightarrow> Inl e
         | Inr _ \<Rightarrow> Inr Statioc_serialize_to_xml)
      else Inl (ValueError format))"

definition Statioc_serialize_body :: "Song \<Rightarrow> pyval \<Rightarrow> heap \<Rightarrow> result" where
  "Statioc_serialize_body song format h =
     (case load_name [ascii ''song'', ascii ''format'', ascii ''serializer''] (ascii ''self'') of
        Inl e \<Rightarrow> (Inl e, h)
      | Inr _ \<Rightarrow>
          (case Statioc_get_serializer format of
             Inl e \<Rightarrow> (Inl e, h)
           | Inr serializer \<Rightarrow> serializer song h))"

text \<open>
  The two ways to call it with a song and a format: on the class, where the function
  receives the two arguments, and on an instance, where the instance is passed as a
  third, first argument.
\<close>

definition Statioc_serialize_on_class :: "Song \<Rightarrow> pyval \<Rightarrow> heap \<Rightarrow> result" where
  "Statioc_serialize_on_class song format h =
     call_function 2 2 (Statioc_serialize_body song format h) h"

definition Statioc_serialize_on_instance :: "Song \<Rightarrow> pyval \<Rightarrow> heap \<Rightarrow> result" where
  "Statioc_serialize_on_instance song format h =
     call_function 2 3 (Statioc_serialize_body song format h) h"

section \<open>The element tree of a song\<close>

text \<open>The tree that \<^verbatim>\<open>et.tostring\<close> is called on, whatever the store held before.\<close>

definition song_tree :: "Song \<Rightarrow> element" where
  "song_tree song =
     Element (ascii ''song'') [(ascii ''id'', song_id song)] None
       [Element (ascii ''title'') [] (Some (title song)) [],
        Element (ascii ''artist'') [] (Some (artist song)) []]"

section \<open>Reading the JSON text back\<close>

text \<open>
  The text that \<^verbatim>\<open>json.dumps\<close> returns is read back with \<^verbatim>\<open>json.loads\<close>, the
  library's parser (\<^verbatim>\<open>json/decoder.py\<close> and \<^verbatim>\<open>json/scanner.py\<close>). The functions below
  follow it for documents that are one object whose members are strings or integers; the
  result \<open>None\<close> stands for a document that the parser rejects or that lies outside
  this fragment (nested values, constants, fractions and exponents). A position in the
  document is the text that remains to be read. As in the accelerated scanner, a
  \<^verbatim>\<open>\u\<close> escape is four hexadecimal digits.
\<close>

definition WHITESPACE :: "nat \<Rightarrow> bool" where
  "WHITESPACE c \<longleftrightarrow> c = 0x20 \<or> c = 0x09 \<or> c = 0x0A \<or> c = 0x0D"

definition skip_ws :: "pystr \<Rightarrow> pystr" where
  "skip_ws s = dropWhile WHITESPACE s"

definition hex_value :: "nat \<Rightarrow> nat option" where
  "hex_value c =
     (if 0x30 \<le> c \<and> c \<le> 0x39 then Some (c - 0x30)
      else if 0x61 \<le> c \<and> c \<le> 0x66 then Some (c - 0x57)
      else if 0x41 \<le> c \<and> c \<le> 0x46 then Some (c - 0x37)
      else None)"

fun decode_uXXXX :: "pystr \<Rightarrow> nat option" where
  "decode_uXXXX (a # b # c # d # rest) =
     (case (hex_value a, hex_value b, hex_value c, hex_value d) of
        (Some x3, Some x2, Some x1, Some x0) \<Rightarrow> Some (4096 * x3 + 256 * x2 + 16 * x1 + x0)
      | _ \<Rightarrow> None)"
| "decode_uXXXX _ = None"

definition BACKSLASH :: "nat \<Rightarrow> nat option" where
  "BACKSLASH esc =
     (if esc = 0x22 then Some 0x22
      else if esc = 0x5C then Some 0x5C
      else if esc = 0x2F then Some 0x2F
      else if esc = 0x62 then Some 0x08
      else if esc = 0x66 then Some 0x0C
      else if esc = 0x6E then Some 0x0A
      else if esc = 0x72 then Some 0x0D
      else if esc = 0x74 then Some 0x09
      else None)"

definition append_char :: "nat \<Rightarrow> (pystr \<times> pystr) option \<Rightarrow> (pystr \<times> pystr) option" where
  "append_char c r = (case r of None \<Rightarrow> None | Some (chunks, rest) \<Rightarrow> Some (c # chunks, rest))"


text \<open>
  The escape after a backslash in \<^verbatim>\<open>py_scanstring\<close>: a short escape from the table
  \<^verbatim>\<open>BACKSLASH\<close>, or \<^verbatim>\<open>\uXXXX\<close>, where a high surrogate followed by the escape of a low
  surrogate is joined with it into one code point.
\<close>

definition scan_escape :: "pystr \<Rightarrow> (nat \<times> pystr) option" where
  "scan_escape cs =
     (case cs of
        [] \<Rightarrow> None
      | esc # cs1 \<Rightarrow>
          if esc \<noteq> 0x75 then
            (case BACKSLASH esc of
               None \<Rightarrow> None
             | Some ch \<Rightarrow> Some (ch, cs1))
          else
            (case decode_uXXXX cs1 of
               None \<Rightarrow> None
             | Some uni \<Rightarrow>
                 if 0xD800 \<le> uni \<and> uni \<le> 0xDBFF \<and> take 2 (drop 4 cs1) = [0x5C, 0x75] then
                   (case decode_uXXXX (drop 6 cs1) of
                      None \<Rightarrow> None
                    | Some uni2 \<Rightarrow>
                        if 0xDC00 \<le> uni2 \<and> uni2 \<le> 0xDFFF then
                          Some (0x10000 + ((uni - 0xD800) * 1024 + (uni2 - 0xDC00)), drop 10 cs1)
                        else Some (uni, drop 4 cs1))
                 else Some (uni, drop 4 cs1)))"



lemma scan_escape_rest:
  assumes "scan_escape (esc # cs1) = Some (ch, rest)"
  shows "rest = cs1 \<or> rest = drop 4 cs1 \<or> rest = drop 10 cs1"
proof (cases "esc = 0x75")
  case False
  with assms show ?thesis
    by (simp add: scan_escape_def split: option.splits)
next
  case True
  with assms obtain uni where u: "decode_uXXXX cs1 = Some uni"
    by (auto simp: scan_escape_def split: option.splits)
  show ?thesis
  proof (cases "0xD800 \<le> uni \<and> uni \<le> 0xDBFF \<and> take 2 (drop 4 cs1) = [0x5C, 0x75]")
    case False
    with assms True u show ?thesis
      by (simp add: scan_escape_def)
  next
    case pair: True
    with assms True u obtain uni2 where u2: "decode_uXXXX (drop 6 cs1) = Some uni2"
      by (auto simp: scan_escape_def split: option.splits)
    with assms True u pair show ?thesis
      by (simp add: scan_escape_def split: if_splits)
  qed
qed

lemma scan_escape_shorter: "scan_escape cs = Some (ch, rest) \<Longrightarrow> length rest < length cs"
proof (cases cs)
  case Nil
  assume "scan_escape cs = Some (ch, rest)"
  with Nil show ?thesis by (simp add: scan_escape_def)
next
  case (Cons esc cs1)
  assume "scan_escape cs = Some (ch, rest)"
  with Cons have "rest = cs1 \<or> rest = drop 4 cs1 \<or> rest = drop 10 cs1"
    using scan_escape_rest by blast
  with Cons show ?thesis by auto
qed


text \<open>
  \<^verbatim>\<open>py_scanstring\<close>, called after the opening quotation mark: the decoded string and the
  text after the closing quotation mark. A control character written as it is raises
  (\<^verbatim>\<open>strict=True\<close>).
\<close>

function scanstring :: "pystr \<Rightarrow> (pystr \<times> pystr) option" where
  "scanstring [] = None"
| "scanstring (c # cs) =
     (if c = 0x22 then Some ([], cs)
      else if c = 0x5C then
        (case scan_escape cs of
           None \<Rightarrow> None
         | Some (ch, rest) \<Rightarrow> append_char ch (scanstring rest))
      else if c < 0x20 then None
      else append_char c (scanstring cs))"
  by pat_completeness auto
termination
  by (relation "measure length") (auto dest: scan_escape_shorter)

declare scanstring.simps [simp del]

lemma scanstring_shorter: "scanstring s = Some (x, r) \<Longrightarrow> length r < length s"
proof (induction s arbitrary: x r rule: scanstring.induct)
  case 1
  then show ?case by (simp add: scanstring.simps)
next
  case (2 c cs)
  show ?case
  proof (cases "c = 0x22")
    case True
    with "2.prems" show ?thesis by (simp add: scanstring.simps)
  next
    case nq: False
    show ?thesis
    proof (cases "c = 0x5C")
      case True
      with nq "2.prems" obtain ch rest y where
        e: "scan_escape cs = Some (ch, rest)" and r: "scanstring rest = Some (y, r)"
        by (auto simp: scanstring.simps append_char_def split: option.splits)
      from "2.IH"(1) [OF nq True e refl r] scan_escape_shorter [OF e]
      show ?thesis by simp
    next
      case False
      with nq "2.prems" obtain y where r: "\<not> c < 0x20" "scanstring cs = Some (y, r)"
        by (auto simp: scanstring.simps append_char_def split: option.splits if_splits)
      from "2.IH"(2) [OF nq False r(1) r(2)] show ?thesis by simp
    qed
  qed
qed

definition is_digit :: "nat \<Rightarrow> bool" where
  "is_digit c \<longleftrightarrow> 0x30 \<le> c \<and> c \<le> 0x39"

definition digits_value :: "pystr \<Rightarrow> nat" where
  "digits_value ds = foldl (\<lambda>acc d. 10 * acc + (d - 0x30)) 0 ds"

text \<open>
  \<^verbatim>\<open>NUMBER_RE\<close>: the integer part is \<^verbatim>\<open>-?(0|[1-9]\d*)\<close>, converted by \<^verbatim>\<open>int\<close>, which
  raises when the text has more digits than the limit. A number continued by a fraction
  or an exponent is not an integer.
\<close>

definition match_integer :: "pystr \<Rightarrow> (pystr \<times> pystr) option" where
  "match_integer s =
     (let (sign, s1) = (case s of [] \<Rightarrow> ([], s) | c # r \<Rightarrow> if c = 0x2D then ([c], r) else ([], s))
      in case s1 of
           [] \<Rightarrow> None
         | d # r \<Rightarrow>
             if d = 0x30 then Some (sign @ [d], r)
             else if is_digit d then Some (sign @ takeWhile is_digit s1, dropWhile is_digit s1)
             else None)"

definition parse_int :: "pystr \<Rightarrow> int" where
  "parse_int t =
     (case t of
        [] \<Rightarrow> 0
      | c # r \<Rightarrow> if c = 0x2D then - int (digits_value r) else int (digits_value t))"

definition digit_count :: "pystr \<Rightarrow> nat" where
  "digit_count integer = length (filter is_digit integer)"

definition match_number :: "pystr \<Rightarrow> (pyval \<times> pystr) option" where
  "match_number s =
     (case match_integer s of
        None \<Rightarrow> None
      | Some (integer, rest) \<Rightarrow>
          (case rest of
             [] \<Rightarrow>
               if max_str_digits < digit_count integer then None
               else Some (PInt (parse_int integer), rest)
           | c # _ \<Rightarrow>
               if c = 0x2E \<or> c = 0x65 \<or> c = 0x45 then None
               else if max_str_digits < digit_count integer then None
               else Some (PInt (parse_int integer), rest)))"

text \<open>
  \<^verbatim>\<open>_scan_once\<close>: a string after a quotation mark, otherwise a number.
\<close>

definition scan_once :: "pystr \<Rightarrow> (pyval \<times> pystr) option" where
  "scan_once s =
     (case s of
        [] \<Rightarrow> None
      | nextchar # r \<Rightarrow>
          if nextchar = 0x22 then
            (case scanstring r of
               None \<Rightarrow> None
             | Some (str, rest) \<Rightarrow> Some (PStr str, rest))
          else if nextchar = 0x7B \<or> nextchar = 0x5B then None
          else match_number s)"

lemma skip_ws_length: "length (skip_ws s) \<le> length s"
  by (simp add: skip_ws_def length_dropWhile_le)

lemma match_integer_shorter: "match_integer s = Some (t, r) \<Longrightarrow> length r < length s"
proof -
  assume a: "match_integer s = Some (t, r)"
  have dw: "length (dropWhile is_digit (d # u)) < Suc (length u)" if "is_digit d" for d u
    using that length_dropWhile_le [of is_digit u] by simp
  show ?thesis
  proof (cases s)
    case Nil
    with a show ?thesis by (simp add: match_integer_def)
  next
    case (Cons c u)
    show ?thesis
    proof (cases "c = 0x2D")
      case True
      with a Cons show ?thesis
        using length_dropWhile_le [of is_digit u]
        by (auto simp: match_integer_def split: list.splits if_splits)
    next
      case False
      with a Cons show ?thesis
        using length_dropWhile_le [of is_digit u]
        by (auto simp: match_integer_def split: list.splits if_splits)
    qed
  qed
qed

lemma scan_once_shorter: "scan_once s = Some (v, r) \<Longrightarrow> length r < length s"
proof -
  assume a: "scan_once s = Some (v, r)"
  show ?thesis
  proof (cases s)
    case Nil
    with a show ?thesis by (simp add: scan_once_def)
  next
    case (Cons c u)
    show ?thesis
    proof (cases "c = 0x22")
      case True
      with a Cons obtain x where "scanstring u = Some (x, r)"
        by (auto simp: scan_once_def split: option.splits)
      from scanstring_shorter [OF this] Cons show ?thesis by simp
    next
      case False
      with a Cons have "match_number s = Some (v, r)"
        by (auto simp: scan_once_def split: if_splits)
      then obtain t where "match_integer s = Some (t, r)"
        by (auto simp: match_number_def split: option.splits list.splits if_splits)
      from match_integer_shorter [OF this] show ?thesis .
    qed
  qed
qed


text \<open>
  The records for which the JSON text is read back as written. A string is a sequence of
  code points below \<open>0x110000\<close>; it may hold surrogates, but no high surrogate directly
  followed by a low surrogate (no well-formed Unicode text holds any surrogate). An
  integer has at most as many decimal digits as the limit allows.
\<close>

definition high_surrogate :: "nat \<Rightarrow> bool" where
  "high_surrogate c \<longleftrightarrow> 0xD800 \<le> c \<and> c \<le> 0xDBFF"

definition low_surrogate :: "nat \<Rightarrow> bool" where
  "low_surrogate c \<longleftrightarrow> 0xDC00 \<le> c \<and> c \<le> 0xDFFF"

fun no_surrogate_pair :: "pystr \<Rightarrow> bool" where
  "no_surrogate_pair [] = True"
| "no_surrogate_pair [c] = True"
| "no_surrogate_pair (c # d # cs) =
     (\<not> (high_surrogate c \<and> low_surrogate d) \<and> no_surrogate_pair (d # cs))"

definition is_str :: "pystr \<Rightarrow> bool" where
  "is_str s \<longleftrightarrow> list_all (\<lambda>c. c < 0x110000) s"

definition is_text :: "pystr \<Rightarrow> bool" where
  "is_text s \<longleftrightarrow> is_str s \<and> no_surrogate_pair s"

fun valid_value :: "pyval \<Rightarrow> bool" where
  "valid_value (PStr s) = is_text s"
| "valid_value (PInt i) = (length (nat_digits (nat \<bar>i\<bar>)) \<le> max_str_digits)"

text \<open>
  The text written for a valid value and for an item of valid values, and the text that
  tells whether what follows the escape of a high surrogate is the escape of a low one.
\<close>

fun value_text :: "pyval \<Rightarrow> pystr" where
  "value_text (PStr s) = encode_basestring_ascii s"
| "value_text (PInt i) = int_decimal i"

definition item_text :: "pystr \<times> pyval \<Rightarrow> pystr" where
  "item_text kv = encode_basestring_ascii (fst kv) @ ascii '': '' @ value_text (snd kv)"

definition dumps_text :: "(pystr \<times> pyval) list \<Rightarrow> pystr" where
  "dumps_text dct =
     (if dct = [] then ascii ''{}''
      else ascii ''{'' @ join_items (map item_text dct) @ ascii ''}'')"

definition not_low_escape :: "pystr \<Rightarrow> bool" where
  "not_low_escape X \<longleftrightarrow>
     take 2 X \<noteq> [0x5C, 0x75]
     \<or> (case decode_uXXXX (drop 2 X) of None \<Rightarrow> False | Some v \<Rightarrow> \<not> low_surrogate v)"


definition valid_dict :: "(pystr \<times> pyval) list \<Rightarrow> bool" where
  "valid_dict dct \<longleftrightarrow> list_all (\<lambda>kv. is_text (fst kv) \<and> valid_value (snd kv)) dct"


definition ends_number :: "pystr \<Rightarrow> bool" where
  "ends_number rest =
     (case rest of
        [] \<Rightarrow> True
      | c # _ \<Rightarrow> \<not> is_digit c \<and> c \<noteq> 0x2E \<and> c \<noteq> 0x65 \<and> c \<noteq> 0x45)"

lemma skip_ws_Cons_shorter: "skip_ws a = c # b \<Longrightarrow> length b < length a"
  using skip_ws_length [of a] by simp

text \<open>
  The loop of \<^verbatim>\<open>JSONObject\<close> over the members, entered after the quotation mark that
  opens a key: key, colon, value, then the closing brace or a comma and the next key.
\<close>

function JSONObject_pairs :: "pystr \<Rightarrow> ((pystr \<times> pyval) list \<times> pystr) option" where
  "JSONObject_pairs s =
     (case scanstring s of
        None \<Rightarrow> None
      | Some (key, s1) \<Rightarrow>
          (case skip_ws s1 of
             [] \<Rightarrow> None
           | colon # s2 \<Rightarrow>
               if colon \<noteq> 0x3A then None
               else
                 (case scan_once (skip_ws s2) of
                    None \<Rightarrow> None
                  | Some (value, s3) \<Rightarrow>
                      (case skip_ws s3 of
                         [] \<Rightarrow> None
                       | nextchar # s4 \<Rightarrow>
                           if nextchar = 0x7D then Some ([(key, value)], s4)
                           else if nextchar \<noteq> 0x2C then None
                           else
                             (case skip_ws s4 of
                                [] \<Rightarrow> None
                              | quote # s5 \<Rightarrow>
                                  if quote \<noteq> 0x22 then None
                                  else
                                    (case JSONObject_pairs s5 of
                                       None \<Rightarrow> None
                                     | Some (pairs, rest) \<Rightarrow>
                                         Some ((key, value) # pairs, rest)))))))"
  by pat_completeness auto
termination
proof (relation "measure length", goal_cases)
  case 1
  show ?case by simp
next
  case (2 s x2 key s1 colon s2 x2a val s3 nextchar s4 q s5)
  have "length s1 < length s"
    using 2 scanstring_shorter [of s key s1] by simp
  moreover have "length s2 < length s1"
    using 2 skip_ws_Cons_shorter [of s1 colon s2] by simp
  moreover have "length s3 < length (skip_ws s2)"
    using 2 scan_once_shorter [of "skip_ws s2" val s3] by simp
  moreover have "length s4 < length s3"
    using 2 skip_ws_Cons_shorter [of s3 nextchar s4] by simp
  moreover have "length s5 < length s4"
    using 2 skip_ws_Cons_shorter [of s4 q s5] by simp
  ultimately show ?case
    using skip_ws_length [of s2] by simp
qed

declare JSONObject_pairs.simps [simp del]

text \<open>
  \<^verbatim>\<open>dict(pairs)\<close>: a later pair replaces an earlier one that has the same key.
\<close>

definition dict :: "(pystr \<times> pyval) list \<Rightarrow> (pystr \<rightharpoonup> pyval)" where
  "dict pairs = foldl (\<lambda>d kv. d(fst kv \<mapsto> snd kv)) Map.empty pairs"

definition JSONObject :: "pystr \<Rightarrow> ((pystr \<rightharpoonup> pyval) \<times> pystr) option" where
  "JSONObject s =
     (case skip_ws s of
        [] \<Rightarrow> None
      | nextchar # s1 \<Rightarrow>
          if nextchar = 0x7D then Some (Map.empty, s1)
          else if nextchar \<noteq> 0x22 then None
          else
            (case JSONObject_pairs s1 of
               None \<Rightarrow> None
             | Some (pairs, rest) \<Rightarrow> Some (dict pairs, rest)))"

text \<open>
  \<^verbatim>\<open>JSONDecoder.decode\<close>: white space, the value, white space, and then the end of the
  document.
\<close>

definition json_loads :: "pystr \<Rightarrow> (pystr \<rightharpoonup> pyval) option" where
  "json_loads s =
     (case skip_ws s of
        [] \<Rightarrow> None
      | nextchar # s1 \<Rightarrow>
          if nextchar \<noteq> 0x7B then None
          else
            (case JSONObject s1 of
               None \<Rightarrow> None
             | Some (obj, rest) \<Rightarrow> if skip_ws rest = [] then Some obj else None))"



section \<open>Reading the XML text back\<close>

text \<open>
  The text that \<^verbatim>\<open>et.tostring\<close> returns is read back by an XML parser. The functions
  below follow the XML 1.0 recommendation for documents that consist of elements with
  attributes, character data and references to characters and to the five predefined
  entities: every character of the document must be one that XML allows (production
  \<^verbatim>\<open>Char\<close>), line ends are normalized before parsing (section 2.11: a carriage return,
  alone or followed by a line feed, is read as one line feed), white space inside an
  attribute value is read as a space (section 3.3.3), and the sequence \<^verbatim>\<open>]]>\<close> may not
  occur in character data. The result \<open>None\<close> stands for a document that is not well
  formed or that lies outside this fragment (declarations, comments, processing
  instructions, CDATA sections, names beyond ASCII). The recursion over nested elements
  runs on fuel, one unit for each element and each run of content; the length of the
  document is given as fuel.
\<close>

definition is_xml_char :: "nat \<Rightarrow> bool" where
  "is_xml_char c \<longleftrightarrow>
     c = 0x09 \<or> c = 0x0A \<or> c = 0x0D \<or> (0x20 \<le> c \<and> c \<le> 0xD7FF)
     \<or> (0xE000 \<le> c \<and> c \<le> 0xFFFD) \<or> (0x10000 \<le> c \<and> c \<le> 0x10FFFF)"

definition XML_S :: "nat \<Rightarrow> bool" where
  "XML_S c \<longleftrightarrow> c = 0x20 \<or> c = 0x09 \<or> c = 0x0D \<or> c = 0x0A"

definition skip_S :: "pystr \<Rightarrow> pystr" where
  "skip_S s = dropWhile XML_S s"

fun normalize_eol :: "pystr \<Rightarrow> pystr" where
  "normalize_eol [] = []"
| "normalize_eol [c] = [if c = 0x0D then 0x0A else c]"
| "normalize_eol (c # d # cs) =
     (if c = 0x0D then 0x0A # (if d = 0x0A then normalize_eol cs else normalize_eol (d # cs))
      else c # normalize_eol (d # cs))"

definition name_start_char :: "nat \<Rightarrow> bool" where
  "name_start_char c \<longleftrightarrow>
     c = 0x3A \<or> c = 0x5F \<or> (0x41 \<le> c \<and> c \<le> 0x5A) \<or> (0x61 \<le> c \<and> c \<le> 0x7A)"

definition name_char :: "nat \<Rightarrow> bool" where
  "name_char c \<longleftrightarrow> name_start_char c \<or> c = 0x2D \<or> c = 0x2E \<or> (0x30 \<le> c \<and> c \<le> 0x39)"

definition parse_name :: "pystr \<Rightarrow> (pystr \<times> pystr) option" where
  "parse_name s =
     (case s of
        [] \<Rightarrow> None
      | c # _ \<Rightarrow>
          if name_start_char c then Some (takeWhile name_char s, dropWhile name_char s)
          else None)"

definition hex_number :: "pystr \<Rightarrow> nat" where
  "hex_number ds = foldl (\<lambda>acc d. 16 * acc + (case hex_value d of None \<Rightarrow> 0 | Some v \<Rightarrow> v)) 0 ds"

definition is_hex_digit :: "nat \<Rightarrow> bool" where
  "is_hex_digit c \<longleftrightarrow> hex_value c \<noteq> None"

text \<open>
  A reference is read after its ampersand, up to the semicolon: one of the five
  predefined entities, or a character given in decimal or in hexadecimal, which must be
  a character that XML allows.
\<close>

definition reference_value :: "pystr \<Rightarrow> nat option" where
  "reference_value name =
     (if name = ascii ''amp'' then Some 0x26
      else if name = ascii ''lt'' then Some 0x3C
      else if name = ascii ''gt'' then Some 0x3E
      else if name = ascii ''apos'' then Some 0x27
      else if name = ascii ''quot'' then Some 0x22
      else
        (case name of
           [] \<Rightarrow> None
         | h # ds \<Rightarrow>
             if h \<noteq> 0x23 then None
             else
               (case ds of
                  [] \<Rightarrow> None
                | x # hs \<Rightarrow>
                    if x = 0x78 then
                      (if hs \<noteq> [] \<and> list_all is_hex_digit hs then Some (hex_number hs) else None)
                    else if list_all is_digit ds then Some (digits_value ds)
                    else None)))"

definition parse_reference :: "pystr \<Rightarrow> (nat \<times> pystr) option" where
  "parse_reference s =
     (case dropWhile (\<lambda>c. c \<noteq> 0x3B) s of
        [] \<Rightarrow> None
      | _ # rest \<Rightarrow>
          (case reference_value (takeWhile (\<lambda>c. c \<noteq> 0x3B) s) of
             None \<Rightarrow> None
           | Some c \<Rightarrow> if is_xml_char c then Some (c, rest) else None))"

lemma parse_reference_shorter: "parse_reference s = Some (c, rest) \<Longrightarrow> length rest < Suc (length s)"
proof -
  assume a: "parse_reference s = Some (c, rest)"
  then obtain x where "dropWhile (\<lambda>c. c \<noteq> 0x3B) s = x # rest"
    by (auto simp: parse_reference_def split: list.splits option.splits if_splits)
  with length_dropWhile_le [of "\<lambda>c. c \<noteq> 0x3B" s] show ?thesis by simp
qed

text \<open>
  An attribute value after its opening quote \<open>q\<close>: up to the closing quote, with
  references replaced and each white-space character read as a space.
\<close>

function parse_attvalue :: "nat \<Rightarrow> pystr \<Rightarrow> (pystr \<times> pystr) option" where
  "parse_attvalue q [] = None"
| "parse_attvalue q (c # cs) =
     (if c = q then Some ([], cs)
      else if c = 0x3C then None
      else if c = 0x26 then
        (case parse_reference cs of
           None \<Rightarrow> None
         | Some (ch, rest) \<Rightarrow> append_char ch (parse_attvalue q rest))
      else if XML_S c then append_char 0x20 (parse_attvalue q cs)
      else append_char c (parse_attvalue q cs))"
  by pat_completeness auto
termination
  by (relation "measure (\<lambda>(q, s). length s)") (auto dest: parse_reference_shorter)

declare parse_attvalue.simps [simp del]

text \<open>
  Character data up to the next \<^verbatim>\<open><\<close>, with references replaced.
\<close>

function parse_chardata :: "pystr \<Rightarrow> (pystr \<times> pystr) option" where
  "parse_chardata [] = None"
| "parse_chardata (c # cs) =
     (if c = 0x3C then Some ([], c # cs)
      else if c = 0x26 then
        (case parse_reference cs of
           None \<Rightarrow> None
         | Some (ch, rest) \<Rightarrow> append_char ch (parse_chardata rest))
      else if c = 0x5D \<and> take 2 cs = [0x5D, 0x3E] then None
      else append_char c (parse_chardata cs))"
  by pat_completeness auto
termination
  by (relation "measure length") (auto dest: parse_reference_shorter)

declare parse_chardata.simps [simp del]


lemma parse_attvalue_shorter: "parse_attvalue q s = Some (v, r) \<Longrightarrow> length r < length s"
proof (induction q s arbitrary: v r rule: parse_attvalue.induct)
  case (1 q)
  then show ?case by (simp add: parse_attvalue.simps)
next
  case (2 q c cs)
  show ?case
  proof (cases "c = q")
    case True
    with "2.prems" show ?thesis by (simp add: parse_attvalue.simps)
  next
    case nq: False
    show ?thesis
    proof (cases "c = 0x3C")
      case True
      with nq "2.prems" show ?thesis by (simp add: parse_attvalue.simps)
    next
      case nlt: False
      show ?thesis
      proof (cases "c = 0x26")
        case True
        with nq nlt "2.prems" obtain ch rest y where
          e: "parse_reference cs = Some (ch, rest)" and r: "parse_attvalue q rest = Some (y, r)"
          by (auto simp: parse_attvalue.simps append_char_def split: option.splits)
        from "2.IH"(1) [OF nq nlt True e refl r] parse_reference_shorter [OF e]
        show ?thesis by simp
      next
        case namp: False
        show ?thesis
        proof (cases "XML_S c")
          case True
          with nq nlt namp "2.prems" obtain y where r: "parse_attvalue q cs = Some (y, r)"
            by (auto simp: parse_attvalue.simps append_char_def split: option.splits)
          from "2.IH"(2) [OF nq nlt namp True r] show ?thesis by simp
        next
          case False
          with nq nlt namp "2.prems" obtain y where r: "parse_attvalue q cs = Some (y, r)"
            by (auto simp: parse_attvalue.simps append_char_def split: option.splits)
          from "2.IH"(3) [OF nq nlt namp False r] show ?thesis by simp
        qed
      qed
    qed
  qed
qed

lemma skip_S_length: "length (skip_S s) \<le> length s"
  by (simp add: skip_S_def length_dropWhile_le)

lemma skip_S_Cons_shorter: "skip_S a = c # b \<Longrightarrow> length b < length a"
  using skip_S_length [of a] by simp

lemma parse_name_length: "parse_name s = Some (n, r) \<Longrightarrow> length r \<le> length s"
  using length_dropWhile_le [of name_char s]
  by (auto simp: parse_name_def split: list.splits if_splits)

text \<open>
  The rest of a start tag after the name of the element: the attributes, whether the
  tag closes the element (\<^verbatim>\<open>/>\<close>), and the text after the tag. White space precedes each
  attribute, and a name occurs once.
\<close>

function parse_attributes :: "pystr \<Rightarrow> ((pystr \<times> pystr) list \<times> bool \<times> pystr) option" where
  "parse_attributes s =
     (case skip_S s of
        [] \<Rightarrow> None
      | c # r \<Rightarrow>
          if c = 0x3E then Some ([], False, r)
          else if c = 0x2F then
            (case r of
               [] \<Rightarrow> None
             | d # r2 \<Rightarrow> if d = 0x3E then Some ([], True, r2) else None)
          else if skip_S s = s then None
          else
            (case parse_name (c # r) of
               None \<Rightarrow> None
             | Some (name, s1) \<Rightarrow>
                 (case skip_S s1 of
                    [] \<Rightarrow> None
                  | eq # s2 \<Rightarrow>
                      if eq \<noteq> 0x3D then None
                      else
                        (case skip_S s2 of
                           [] \<Rightarrow> None
                         | q # s3 \<Rightarrow>
                             if q \<noteq> 0x22 \<and> q \<noteq> 0x27 then None
                             else
                               (case parse_attvalue q s3 of
                                  None \<Rightarrow> None
                                | Some (v, s4) \<Rightarrow>
                                    (case parse_attributes s4 of
                                       None \<Rightarrow> None
                                     | Some (attrs, closed, rest) \<Rightarrow>
                                         if name \<in> fst ` set attrs then None
                                         else Some ((name, v) # attrs, closed, rest)))))))"
  by pat_completeness auto
termination
proof (relation "measure length", goal_cases)
  case 1
  show ?case by simp
next
  case (2 s c r x2 name s1 eq s2 q s3 x2a v s4)
  have "length (c # r) \<le> length s"
    using 2 skip_S_length [of s] by simp
  moreover have "length s1 \<le> length (c # r)"
    using 2 parse_name_length [of "c # r" name s1] by simp
  moreover have "length s2 < length s1"
    using 2 skip_S_Cons_shorter [of s1 eq s2] by simp
  moreover have "length s3 < length s2"
    using 2 skip_S_Cons_shorter [of s2 q s3] by simp
  moreover have "length s4 < length s3"
    using 2 parse_attvalue_shorter [of q s3 v s4] by simp
  ultimately show ?case by simp
qed

declare parse_attributes.simps [simp del]

datatype xnode = XText pystr | XElem pystr "(pystr \<times> pystr) list" "xnode list"

definition text_node :: "pystr \<Rightarrow> xnode list" where
  "text_node t = (if t = [] then [] else [XText t])"

text \<open>
  An element is read after its \<^verbatim>\<open><\<close>; its content is read up to and including the end
  tag, which must repeat the name \<open>tag\<close> of the start tag.
\<close>

fun parse_element :: "nat \<Rightarrow> pystr \<Rightarrow> (xnode \<times> pystr) option"
  and parse_content :: "nat \<Rightarrow> pystr \<Rightarrow> pystr \<Rightarrow> (xnode list \<times> pystr) option" where
  "parse_element 0 s = None"
| "parse_element (Suc n) s =
     (case parse_name s of
        None \<Rightarrow> None
      | Some (tag, s1) \<Rightarrow>
          (case parse_attributes s1 of
             None \<Rightarrow> None
           | Some (attrs, closed, s2) \<Rightarrow>
               if closed then Some (XElem tag attrs [], s2)
               else
                 (case parse_content n tag s2 of
                    None \<Rightarrow> None
                  | Some (kids, rest) \<Rightarrow> Some (XElem tag attrs kids, rest))))"
| "parse_content 0 tag s = None"
| "parse_content (Suc n) tag s =
     (case parse_chardata s of
        None \<Rightarrow> None
      | Some (txt, s1) \<Rightarrow>
          (case s1 of
             lt # sl # s2 \<Rightarrow>
               if sl = 0x2F then
                 (case parse_name s2 of
                    None \<Rightarrow> None
                  | Some (name, s3) \<Rightarrow>
                      if name \<noteq> tag then None
                      else
                        (case skip_S s3 of
                           [] \<Rightarrow> None
                         | gt # rest \<Rightarrow> if gt = 0x3E then Some (text_node txt, rest) else None))
               else
                 (case parse_element n (sl # s2) of
                    None \<Rightarrow> None
                  | Some (e, s3) \<Rightarrow>
                      (case parse_content n tag s3 of
                         None \<Rightarrow> None
                       | Some (siblings, rest) \<Rightarrow> Some (text_node txt @ e # siblings, rest)))
           | _ \<Rightarrow> None))"

text \<open>
  The document: allowed characters only, line ends normalized, one root element, and
  nothing but white space after it.
\<close>

definition xml_parse :: "pystr \<Rightarrow> xnode option" where
  "xml_parse doc =
     (if \<not> list_all is_xml_char doc then None
      else
        (case skip_S (normalize_eol doc) of
           [] \<Rightarrow> None
         | lt # s \<Rightarrow>
             if lt \<noteq> 0x3C then None
             else
               (case parse_element (length doc) s of
                  None \<Rightarrow> None
                | Some (root, rest) \<Rightarrow> if skip_S rest = [] then Some root else None)))"



text \<open>
  The text of an element is the character data of its content; it is empty for an
  element without content, which ElementTree reports as \<^verbatim>\<open>None\<close>.
\<close>

fun node_text :: "xnode \<Rightarrow> pystr" where
  "node_text (XText s) = s"
| "node_text (XElem tag attrs kids) = []"

fun element_text :: "xnode \<Rightarrow> pystr" where
  "element_text (XText s) = s"
| "element_text (XElem tag attrs kids) = concat (map node_text kids)"

subsection \<open>The escaping the specification asks for\<close>

text \<open>
  Character data with \<^verbatim>\<open>&\<close>, \<^verbatim>\<open><\<close> and \<^verbatim>\<open>>\<close> replaced by \<^verbatim>\<open>&amp;\<close>, \<^verbatim>\<open>&lt;\<close> and
  \<^verbatim>\<open>&gt;\<close>; attribute values with, in addition, the quotation mark and the three
  white-space controls replaced by references; and the document the specification
  describes for a song, built from these.
\<close>

definition cdata_char :: "nat \<Rightarrow> pystr" where
  "cdata_char c =
     (if c = 0x26 then ascii ''&amp;''
      else if c = 0x3C then ascii ''&lt;''
      else if c = 0x3E then ascii ''&gt;''
      else [c])"

definition attrib_char :: "nat \<Rightarrow> pystr" where
  "attrib_char c =
     (if c = 0x26 then ascii ''&amp;''
      else if c = 0x3C then ascii ''&lt;''
      else if c = 0x3E then ascii ''&gt;''
      else if c = 0x22 then ascii ''&quot;''
      else if c = 0x0D then ascii ''&#13;''
      else if c = 0x0A then ascii ''&#10;''
      else if c = 0x09 then ascii ''&#09;''
      else [c])"

definition leaf_xml :: "pystr \<Rightarrow> pystr \<Rightarrow> pystr" where
  "leaf_xml tag s =
     (if s = [] then ascii ''<'' @ tag @ ascii '' />''
      else ascii ''<'' @ tag @ ascii ''>'' @ concat (map cdata_char s) @ ascii ''</'' @ tag
           @ ascii ''>'')"

definition song_xml :: "pystr \<Rightarrow> pystr \<Rightarrow> pystr \<Rightarrow> pystr" where
  "song_xml i t a =
     ascii ''<song id=\"'' @ concat (map attrib_char i) @ ascii ''\">''
       @ leaf_xml (ascii ''title'') t @ leaf_xml (ascii ''artist'') a @ ascii ''</song>''"

definition is_name :: "pystr \<Rightarrow> bool" where
  "is_name tag \<longleftrightarrow> (case tag of [] \<Rightarrow> False | c # cs \<Rightarrow> name_start_char c \<and> list_all name_char cs)"


section \<open>JSON: the parser inverts the encoder\<close>

lemma hex4_sum:
  assumes "(n::nat) < 65536"
  shows "4096 * (n div 4096 mod 16) + 256 * (n div 256 mod 16) + 16 * (n div 16 mod 16) + n mod 16 = n"
proof -
  have a: "n mod 65536 = 4096 * (n div 4096 mod 16) + n mod 4096"
    using mod_mult2_eq [of n 4096 16] by simp
  have b: "n mod 4096 = 256 * (n div 256 mod 16) + n mod 256"
    using mod_mult2_eq [of n 256 16] by simp
  have c: "n mod 256 = 16 * (n div 16 mod 16) + n mod 16"
    using mod_mult2_eq [of n 16 16] by simp
  from assms have "n mod 65536 = n" by simp
  with a b c show ?thesis by linarith
qed

lemma pair_sum:
  assumes "(n::nat) < 1048576"
  shows "(n div 1024 mod 1024) * 1024 + n mod 1024 = n"
proof -
  have "n mod 1048576 = 1024 * (n div 1024 mod 1024) + n mod 1024"
    using mod_mult2_eq [of n 1024 1024] by simp
  with assms show ?thesis by simp
qed


lemma hex_value_hex_digit: "d < 16 \<Longrightarrow> hex_value (hex_digit d) = Some d"
  by (simp add: hex_value_def hex_digit_def)

lemma length_hex4: "length (hex4 n) = 4"
  by (simp add: hex4_def)

lemma decode_hex4:
  assumes "n < 65536"
  shows "decode_uXXXX (hex4 n @ rest) = Some n"
proof -
  have "decode_uXXXX (hex4 n @ rest)
      = Some (4096 * (n div 4096 mod 16) + 256 * (n div 256 mod 16) + 16 * (n div 16 mod 16)
              + n mod 16)"
    by (simp add: hex4_def hex_value_hex_digit)
  then show ?thesis by (simp only: hex4_sum [OF assms])
qed

lemma drop_hex4: "drop 4 (hex4 n @ rest) = rest"
  using length_hex4 [of n] by simp

lemma scan_escape_u:
  assumes "n < 65536" and "\<not> (0xD800 \<le> n \<and> n \<le> 0xDBFF)"
  shows "scan_escape (0x75 # hex4 n @ rest) = Some (n, rest)"
proof -
  have c: "\<not> (0xD800 \<le> n \<and> n \<le> 0xDBFF \<and> take 2 rest = [0x5C, 0x75])"
    using assms(2) by blast
  show ?thesis
    unfolding scan_escape_def
    by (simp only: list.case decode_hex4 [OF assms(1)] option.case c if_False drop_hex4 simp_thms)
qed

lemma scan_escape_pair:
  assumes "0x10000 \<le> c" and "c < 0x110000"
  shows "scan_escape (0x75 # hex4 (0xD800 + (c - 0x10000) div 1024 mod 1024) @ [0x5C, 0x75]
            @ hex4 (0xDC00 + (c - 0x10000) mod 1024) @ rest) = Some (c, rest)"
proof -
  define n where "n = c - 0x10000"
  define s1 where "s1 = 0xD800 + n div 1024 mod 1024"
  define s2 where "s2 = 0xDC00 + n mod 1024"
  have n: "n < 1048576" using assms by (simp add: n_def)
  have s1: "0xD800 \<le> s1" "s1 \<le> 0xDBFF" "s1 < 65536"
    by (simp_all add: s1_def)
  have s2: "0xDC00 \<le> s2" "s2 \<le> 0xDFFF" "s2 < 65536"
    by (simp_all add: s2_def)
  have d1: "decode_uXXXX (hex4 s1 @ [0x5C, 0x75] @ hex4 s2 @ rest) = Some s1"
    by (rule decode_hex4 [OF s1(3)])
  have t: "take 2 (drop 4 (hex4 s1 @ [0x5C, 0x75] @ hex4 s2 @ rest)) = [0x5C, 0x75]"
    unfolding drop_hex4 by simp
  have "drop 6 (hex4 s1 @ [0x5C, 0x75] @ hex4 s2 @ rest)
      = drop 2 (drop 4 (hex4 s1 @ [0x5C, 0x75] @ hex4 s2 @ rest))"
    by (simp del: drop_append)
  then have d6: "drop 6 (hex4 s1 @ [0x5C, 0x75] @ hex4 s2 @ rest) = hex4 s2 @ rest"
    by (simp only: drop_hex4) simp
  have "drop 10 (hex4 s1 @ [0x5C, 0x75] @ hex4 s2 @ rest)
      = drop 4 (drop 6 (hex4 s1 @ [0x5C, 0x75] @ hex4 s2 @ rest))"
    by (simp del: drop_append)
  then have d10: "drop 10 (hex4 s1 @ [0x5C, 0x75] @ hex4 s2 @ rest) = rest"
    by (simp only: d6 drop_hex4)
  have d2: "decode_uXXXX (hex4 s2 @ rest) = Some s2"
    by (rule decode_hex4 [OF s2(3)])
  have v: "0x10000 + ((s1 - 0xD800) * 1024 + (s2 - 0xDC00)) = c"
    using pair_sum [OF n] assms by (simp add: s1_def s2_def n_def)
  have "scan_escape (0x75 # hex4 s1 @ [0x5C, 0x75] @ hex4 s2 @ rest) = Some (c, rest)"
    unfolding scan_escape_def
    by (simp only: list.case d1 t d6 d10 d2 option.case s1 s2 v simp_thms if_True if_False)
  then show ?thesis by (simp only: s1_def s2_def n_def)
qed


lemma scanstring_backslash:
  "scan_escape cs = Some (ch, r) \<Longrightarrow> scanstring (0x5C # cs) = append_char ch (scanstring r)"
  by (simp add: scanstring.simps)

lemma scanstring_plain:
  "c \<noteq> 0x22 \<Longrightarrow> c \<noteq> 0x5C \<Longrightarrow> 0x20 \<le> c \<Longrightarrow>
   scanstring (c # rest) = append_char c (scanstring rest)"
  by (simp add: scanstring.simps)

lemma scan_escape_short:
  "BACKSLASH esc = Some ch \<Longrightarrow> esc \<noteq> 0x75 \<Longrightarrow> scan_escape (esc # rest) = Some (ch, rest)"
  by (simp add: scan_escape_def)

lemma scanstring_u:
  assumes "n < 65536" and "\<not> (0xD800 \<le> n \<and> n \<le> 0xDBFF)"
  shows "scanstring (([0x5C, 0x75] @ hex4 n) @ rest) = append_char n (scanstring rest)"
  using scanstring_backslash [OF scan_escape_u [OF assms, of rest]] by simp

lemma scan_escape_high:
  assumes "high_surrogate c" and "not_low_escape X"
  shows "scan_escape (0x75 # hex4 c @ X) = Some (c, X)"
proof -
  have c: "c < 65536"
    using assms(1) by (simp add: high_surrogate_def)
  have d1: "decode_uXXXX (hex4 c @ X) = Some c"
    by (rule decode_hex4 [OF c])
  have d4: "drop 4 (hex4 c @ X) = X"
    by (rule drop_hex4)
  have "drop 6 (hex4 c @ X) = drop 2 (drop 4 (hex4 c @ X))"
    by (simp del: drop_append)
  then have d6: "drop 6 (hex4 c @ X) = drop 2 X"
    by (simp only: d4)
  show ?thesis
  proof (cases "take 2 X = [0x5C, 0x75]")
    case False
    then have n: "\<not> (0xD800 \<le> c \<and> c \<le> 0xDBFF \<and> take 2 X = [0x5C, 0x75])"
      by blast
    show ?thesis
      unfolding scan_escape_def
      by (simp only: list.case d1 option.case d4 n if_False simp_thms)
  next
    case True
    with assms(2) obtain v where v: "decode_uXXXX (drop 2 X) = Some v" and l: "\<not> low_surrogate v"
      by (auto simp: not_low_escape_def split: option.splits)
    have hc: "0xD800 \<le> c \<and> c \<le> 0xDBFF \<and> take 2 X = [0x5C, 0x75]"
      using assms(1) True by (simp add: high_surrogate_def)
    have nl: "\<not> (0xDC00 \<le> v \<and> v \<le> 0xDFFF)"
      using l by (simp add: low_surrogate_def)
    show ?thesis
      unfolding scan_escape_def
      by (simp only: list.case d1 option.case d4 d6 v hc nl if_True if_False simp_thms)
  qed
qed

lemma not_low_escape_u:
  assumes "v < 65536" and "\<not> low_surrogate v"
  shows "not_low_escape (([0x5C, 0x75] @ hex4 v) @ Y)"
  using assms decode_hex4 [OF assms(1), of Y] by (simp add: not_low_escape_def)

lemma encode_char_cases:
  obtains (plain) "\<not> ESCAPE_ASCII c" "encode_char c = [c]"
  | (short) e where "encode_char c = [0x5C, e]" "BACKSLASH e = Some c" "e \<noteq> 0x75"
  | (bmp) "c < 0x10000" "encode_char c = [0x5C, 0x75] @ hex4 c"
  | (astral) "0x10000 \<le> c"
      "encode_char c = [0x5C, 0x75] @ hex4 (0xD800 + (c - 0x10000) div 1024 mod 1024)
         @ [0x5C, 0x75] @ hex4 (0xDC00 + (c - 0x10000) mod 1024)"
proof (cases "ESCAPE_ASCII c")
  case False
  then show ?thesis
    using plain by (simp add: encode_char_def)
next
  case True
  then have enc: "encode_char c = replace_match c"
    by (simp add: encode_char_def)
  consider (s) "c = 0x5C \<or> c = 0x22 \<or> c = 0x08 \<or> c = 0x0C \<or> c = 0x0A \<or> c = 0x0D \<or> c = 0x09"
    | (ctrl) "c < 0x20" "c \<noteq> 0x08" "c \<noteq> 0x0C" "c \<noteq> 0x0A" "c \<noteq> 0x0D" "c \<noteq> 0x09"
    | (b) "0x7F \<le> c" "c < 0x10000"
    | (a) "0x10000 \<le> c"
    using True unfolding ESCAPE_ASCII_def by (cases "c < 0x20"; cases "c < 0x10000"; fastforce)
  then show ?thesis
  proof cases
    case s
    then have "\<exists>e. encode_char c = [0x5C, e] \<and> BACKSLASH e = Some c \<and> e \<noteq> 0x75"
      unfolding enc
      by (elim disjE) (simp_all add: replace_match_def ESCAPE_DCT_def BACKSLASH_def)
    then show ?thesis
      using short by blast
  next
    case ctrl
    then have "replace_match c = [0x5C, 0x75] @ hex4 c"
      by (simp add: replace_match_def ESCAPE_DCT_def)
    with ctrl(1) show ?thesis
      using bmp by (simp add: enc)
  next
    case b
    then have "replace_match c = [0x5C, 0x75] @ hex4 c"
      by (simp add: replace_match_def ESCAPE_DCT_def)
    with b(2) show ?thesis
      using bmp by (simp add: enc)
  next
    case a
    then have "replace_match c
        = [0x5C, 0x75] @ hex4 (0xD800 + (c - 0x10000) div 1024 mod 1024) @ [0x5C, 0x75]
            @ hex4 (0xDC00 + (c - 0x10000) mod 1024)"
      by (simp add: replace_match_def ESCAPE_DCT_def Let_def)
    with a show ?thesis
      using astral by (simp add: enc)
  qed
qed

lemma not_low_escape_encode_char:
  assumes "\<not> low_surrogate c"
  shows "not_low_escape (encode_char c @ Y)"
proof (cases c rule: encode_char_cases)
  case plain
  then show ?thesis
    by (simp add: not_low_escape_def ESCAPE_ASCII_def)
next
  case (short e)
  then show ?thesis
    by (simp add: not_low_escape_def)
next
  case bmp
  have "c < 65536" using bmp(1) by simp
  from not_low_escape_u [OF this assms, of Y] show ?thesis
    by (simp only: bmp(2))
next
  case astral
  let ?s1 = "0xD800 + (c - 0x10000) div 1024 mod 1024"
  have "?s1 < 65536" "\<not> low_surrogate ?s1"
    by (simp_all add: low_surrogate_def)
  from not_low_escape_u [OF this, of "[0x5C, 0x75] @ hex4 (0xDC00 + (c - 0x10000) mod 1024) @ Y"]
  show ?thesis
    by (simp only: astral(2) append_assoc)
qed

lemma not_low_escape_quote: "not_low_escape (0x22 # R)"
  by (simp add: not_low_escape_def)

lemma scanstring_encode_char:
  assumes "c < 0x110000" and "high_surrogate c \<longrightarrow> not_low_escape rest"
  shows "scanstring (encode_char c @ rest) = append_char c (scanstring rest)"
proof (cases c rule: encode_char_cases)
  case plain
  then show ?thesis
    by (simp add: ESCAPE_ASCII_def scanstring_plain)
next
  case (short e)
  from scanstring_backslash [OF scan_escape_short [OF short(2,3), of rest]]
  show ?thesis by (simp add: short(1))
next
  case bmp
  show ?thesis
  proof (cases "high_surrogate c")
    case True
    with assms(2) have "not_low_escape rest" by blast
    from scanstring_backslash [OF scan_escape_high [OF True this]]
    show ?thesis by (simp add: bmp(2))
  next
    case False
    then have "\<not> (0xD800 \<le> c \<and> c \<le> 0xDBFF)"
      by (simp add: high_surrogate_def)
    moreover have "c < 65536" using bmp(1) by simp
    ultimately show ?thesis
      using scanstring_u [of c rest] by (simp add: bmp(2))
  qed
next
  case astral
  from scanstring_backslash [OF scan_escape_pair [OF astral(1) assms(1), of rest]]
  show ?thesis by (simp add: astral(2))
qed

lemma scanstring_encoded_aux:
  "is_str s \<Longrightarrow> no_surrogate_pair s \<Longrightarrow>
   scanstring (concat (map encode_char s) @ 0x22 # rest) = Some (s, rest)"
proof (induction s rule: no_surrogate_pair.induct)
  case 1
  show ?case by (simp add: scanstring.simps)
next
  case (2 c)
  then have c: "c < 0x110000" by (simp add: is_str_def)
  have e: "scanstring (0x22 # rest) = Some ([], rest)"
    by (simp add: scanstring.simps)
  from scanstring_encode_char [OF c, of "0x22 # rest"] not_low_escape_quote [of rest] e
  show ?case by (simp add: append_char_def)
next
  case (3 c d cs)
  let ?Y = "concat (map encode_char cs) @ 0x22 # rest"
  from "3.prems" have c: "c < 0x110000" and s: "is_str (d # cs)"
    and p: "no_surrogate_pair (d # cs)" and h: "\<not> (high_surrogate c \<and> low_surrogate d)"
    by (simp_all add: is_str_def)
  have ih: "scanstring (encode_char d @ ?Y) = Some (d # cs, rest)"
    using "3.IH" [OF s p] by simp
  have "high_surrogate c \<longrightarrow> not_low_escape (encode_char d @ ?Y)"
    using h not_low_escape_encode_char [of d ?Y] by blast
  from scanstring_encode_char [OF c this] ih
  show ?case by (simp add: append_char_def)
qed

lemma scanstring_encoded:
  assumes "is_text s"
  shows "scanstring (concat (map encode_char s) @ 0x22 # rest) = Some (s, rest)"
  using assms scanstring_encoded_aux by (simp add: is_text_def)

lemma scan_once_string:
  assumes "is_text s"
  shows "scan_once (encode_basestring_ascii s @ rest) = Some (PStr s, rest)"
  using scanstring_encoded [OF assms, of rest]
  by (simp add: scan_once_def encode_basestring_ascii_def)


lemma nat_digits_all_digits: "list_all is_digit (nat_digits n)"
proof (induction n rule: nat_digits.induct)
  case (1 n)
  show ?case
  proof (cases "n < 10")
    case True
    then show ?thesis
      by (subst nat_digits.simps) (simp add: is_digit_def)
  next
    case False
    have "n mod 10 < 10" by simp
    then have "is_digit (0x30 + n mod 10)"
      unfolding is_digit_def by linarith
    with False "1.IH" show ?thesis
      by (subst nat_digits.simps) simp
  qed
qed

lemma nat_digits_not_Nil: "nat_digits n \<noteq> []"
  by (subst nat_digits.simps) simp

lemma hd_nat_digits: "0 < n \<Longrightarrow> hd (nat_digits n) \<noteq> 0x30"
proof (induction n rule: nat_digits.induct)
  case (1 n)
  show ?case
  proof (cases "n < 10")
    case True
    with "1.prems" show ?thesis
      by (subst nat_digits.simps) simp
  next
    case False
    then have "0 < n div 10" by simp
    with False "1.IH" have "hd (nat_digits (n div 10)) \<noteq> 0x30" by simp
    with False show ?thesis
      by (subst nat_digits.simps) (simp add: nat_digits_not_Nil)
  qed
qed

lemma digits_value_snoc: "digits_value (ds @ [d]) = 10 * digits_value ds + (d - 0x30)"
  by (simp add: digits_value_def)

lemma digits_value_nat_digits: "digits_value (nat_digits n) = n"
proof (induction n rule: nat_digits.induct)
  case (1 n)
  show ?case
  proof (cases "n < 10")
    case True
    then show ?thesis
      by (subst nat_digits.simps) (simp add: digits_value_def)
  next
    case False
    with "1.IH" have "digits_value (nat_digits (n div 10)) = n div 10" by simp
    with False show ?thesis
      by (subst nat_digits.simps) (simp add: digits_value_snoc)
  qed
qed

lemma takeWhile_digits:
  assumes "list_all is_digit ds" and "ends_number rest"
  shows "takeWhile is_digit (ds @ rest) = ds" and "dropWhile is_digit (ds @ rest) = rest"
proof -
  have a: "\<forall>x\<in>set ds. is_digit x"
    using assms(1) by (simp add: list_all_iff)
  have r: "takeWhile is_digit rest = []" "dropWhile is_digit rest = rest"
    using assms(2) by (cases rest; simp add: ends_number_def)+
  show "takeWhile is_digit (ds @ rest) = ds"
    using a r by (simp add: takeWhile_append2)
  show "dropWhile is_digit (ds @ rest) = rest"
    using a r by (simp add: dropWhile_append2)
qed

lemma match_integer_nat_digits:
  assumes "ends_number rest"
  shows "match_integer (nat_digits n @ rest) = Some (nat_digits n, rest)"
proof (cases "n = 0")
  case True
  have "nat_digits 0 = [0x30]"
    by (subst nat_digits.simps) simp
  with True show ?thesis
    by (simp add: match_integer_def)
next
  case False
  obtain d ds where ds: "nat_digits n = d # ds"
    using nat_digits_not_Nil [of n] by (cases "nat_digits n") auto
  have d: "is_digit d" "d \<noteq> 0x30"
    using nat_digits_all_digits [of n] hd_nat_digits [of n] False by (simp_all add: ds)
  then have m: "d \<noteq> 0x2D"
    by (auto simp: is_digit_def)
  have tw: "takeWhile is_digit ((d # ds) @ rest) = d # ds"
    and dw: "dropWhile is_digit ((d # ds) @ rest) = rest"
    using takeWhile_digits [OF nat_digits_all_digits [of n] assms] by (simp_all only: ds)
  have "match_integer ((d # ds) @ rest) = Some (d # ds, rest)"
    using d m tw dw by (simp add: match_integer_def)
  then show ?thesis by (simp only: ds)
qed

lemma match_integer_int_decimal:
  assumes "ends_number rest"
  shows "match_integer (int_decimal i @ rest) = Some (int_decimal i, rest)"
proof (cases "i < 0")
  case False
  then show ?thesis
    using match_integer_nat_digits [OF assms, of "nat i"] by (simp add: int_decimal_def)
next
  case True
  define n where "n = nat (- i)"
  have n: "0 < n" using True by (simp add: n_def)
  obtain d ds where ds: "nat_digits n = d # ds"
    using nat_digits_not_Nil [of n] by (cases "nat_digits n") auto
  have d: "is_digit d" "d \<noteq> 0x30"
    using nat_digits_all_digits [of n] hd_nat_digits [of n] n by (simp_all add: ds)
  have tw: "takeWhile is_digit ((d # ds) @ rest) = d # ds"
    and dw: "dropWhile is_digit ((d # ds) @ rest) = rest"
    using takeWhile_digits [OF nat_digits_all_digits [of n] assms] by (simp_all only: ds)
  have "match_integer (0x2D # (d # ds) @ rest) = Some (0x2D # d # ds, rest)"
    using d tw dw by (simp add: match_integer_def)
  then show ?thesis
    using True by (simp add: int_decimal_def n_def [symmetric] ds)
qed

lemma parse_int_int_decimal: "parse_int (int_decimal i) = i"
proof (cases "i < 0")
  case True
  then show ?thesis
    by (simp add: int_decimal_def parse_int_def digits_value_nat_digits)
next
  case False
  obtain d ds where ds: "nat_digits (nat i) = d # ds"
    using nat_digits_not_Nil [of "nat i"] by (cases "nat_digits (nat i)") auto
  have "is_digit d"
    using nat_digits_all_digits [of "nat i"] by (simp add: ds)
  then have "d \<noteq> 0x2D" by (auto simp: is_digit_def)
  moreover have "digits_value (d # ds) = nat i"
    using digits_value_nat_digits [of "nat i"] by (simp only: ds)
  ultimately show ?thesis
    using False by (simp add: int_decimal_def parse_int_def ds)
qed

lemma digit_count_int_decimal: "digit_count (int_decimal i) = length (nat_digits (nat \<bar>i\<bar>))"
proof -
  have f: "filter is_digit (nat_digits n) = nat_digits n" for n
    using nat_digits_all_digits [of n] by (simp add: list_all_iff)
  have m: "\<not> is_digit 0x2D" by (simp add: is_digit_def)
  show ?thesis
    by (cases "i < 0") (simp_all add: digit_count_def int_decimal_def f m abs_if)
qed

lemma match_number_int_decimal:
  assumes "ends_number rest" and "valid_value (PInt i)"
  shows "match_number (int_decimal i @ rest) = Some (PInt i, rest)"
proof -
  have m: "match_integer (int_decimal i @ rest) = Some (int_decimal i, rest)"
    by (rule match_integer_int_decimal [OF assms(1)])
  have l: "\<not> max_str_digits < digit_count (int_decimal i)"
    using assms(2) by (simp add: digit_count_int_decimal)
  show ?thesis
  proof (cases rest)
    case Nil
    show ?thesis
      unfolding match_number_def m by (simp add: Nil parse_int_int_decimal l)
  next
    case (Cons c cs)
    with assms have "c \<noteq> 0x2E" "c \<noteq> 0x65" "c \<noteq> 0x45"
      by (simp_all add: ends_number_def)
    then show ?thesis
      unfolding match_number_def m by (simp add: Cons parse_int_int_decimal l)
  qed
qed

lemma int_decimal_first:
  "\<exists>c cs. int_decimal i = c # cs \<and> c \<noteq> 0x22 \<and> c \<noteq> 0x7B \<and> c \<noteq> 0x5B"
proof -
  obtain d ds where ds: "nat_digits (nat \<bar>i\<bar>) = d # ds"
    using nat_digits_not_Nil [of "nat \<bar>i\<bar>"] by (cases "nat_digits (nat \<bar>i\<bar>)") auto
  have "is_digit d"
    using nat_digits_all_digits [of "nat \<bar>i\<bar>"] by (simp add: ds)
  then have "d \<noteq> 0x22 \<and> d \<noteq> 0x7B \<and> d \<noteq> 0x5B" by (auto simp: is_digit_def)
  then show ?thesis
    using ds by (cases "i < 0") (simp_all add: int_decimal_def abs_if)
qed

lemma scan_once_int:
  assumes "ends_number rest" and "valid_value (PInt i)"
  shows "scan_once (int_decimal i @ rest) = Some (PInt i, rest)"
proof -
  obtain c cs where c: "int_decimal i = c # cs" "c \<noteq> 0x22" "c \<noteq> 0x7B" "c \<noteq> 0x5B"
    using int_decimal_first by blast
  have "scan_once ((c # cs) @ rest) = match_number ((c # cs) @ rest)"
    using c(2-4) by (simp add: scan_once_def)
  then show ?thesis
    using match_number_int_decimal [OF assms] by (simp only: c(1))
qed


lemma skip_ws_not_ws: "\<not> WHITESPACE c \<Longrightarrow> skip_ws (c # s) = c # s"
  by (simp add: skip_ws_def)

lemma skip_ws_space: "skip_ws (0x20 # s) = skip_ws s"
  by (simp add: skip_ws_def WHITESPACE_def)

lemma encode_value_first:
  "\<exists>c cs. value_text v = c # cs \<and> \<not> WHITESPACE c"
proof (cases v)
  case (PStr s)
  then show ?thesis
    by (simp add: encode_basestring_ascii_def WHITESPACE_def)
next
  case (PInt i)
  obtain d ds where ds: "nat_digits (nat \<bar>i\<bar>) = d # ds"
    using nat_digits_not_Nil [of "nat \<bar>i\<bar>"] by (cases "nat_digits (nat \<bar>i\<bar>)") auto
  have "is_digit d"
    using nat_digits_all_digits [of "nat \<bar>i\<bar>"] by (simp add: ds)
  then have "\<not> WHITESPACE d" by (auto simp: is_digit_def WHITESPACE_def)
  then show ?thesis
    using ds PInt by (cases "i < 0") (simp_all add: int_decimal_def abs_if WHITESPACE_def)
qed

lemma skip_ws_encode_value: "skip_ws (value_text v @ rest) = value_text v @ rest"
proof -
  obtain c cs where "value_text v = c # cs" "\<not> WHITESPACE c"
    using encode_value_first by blast
  then show ?thesis by (simp add: skip_ws_not_ws)
qed

lemma scan_once_value:
  assumes "valid_value v" and "ends_number rest"
  shows "scan_once (value_text v @ rest) = Some (v, rest)"
proof (cases v)
  case (PStr s)
  with assms show ?thesis by (simp add: scan_once_string)
next
  case (PInt i)
  with assms scan_once_int [of rest i] show ?thesis by simp
qed

lemma pairs_last:
  assumes "is_text k" and "valid_value v"
  shows "JSONObject_pairs (concat (map encode_char k) @ 0x22 # 0x3A # 0x20 # value_text v
            @ 0x7D # rest) = Some ([(k, v)], rest)"
proof -
  have e: "ends_number (0x7D # rest)"
    by (simp add: ends_number_def is_digit_def)
  have 1: "scanstring (concat (map encode_char k) @ 0x22 # 0x3A # 0x20 # value_text v
            @ 0x7D # rest) = Some (k, 0x3A # 0x20 # value_text v @ 0x7D # rest)"
    by (rule scanstring_encoded [OF assms(1)])
  have 2: "skip_ws (0x3A # 0x20 # value_text v @ 0x7D # rest)
             = 0x3A # 0x20 # value_text v @ 0x7D # rest"
    by (simp add: skip_ws_not_ws WHITESPACE_def)
  have 3: "skip_ws (0x20 # value_text v @ 0x7D # rest) = value_text v @ 0x7D # rest"
    by (simp only: skip_ws_space skip_ws_encode_value)
  have 4: "scan_once (value_text v @ 0x7D # rest) = Some (v, 0x7D # rest)"
    by (rule scan_once_value [OF assms(2) e])
  have 5: "skip_ws (0x7D # rest) = 0x7D # rest"
    by (simp add: skip_ws_not_ws WHITESPACE_def)
  show ?thesis
    by (subst JSONObject_pairs.simps)
      (simp only: 1 2 3 4 5 option.case prod.case list.case simp_thms if_True if_False)
qed

lemma pairs_more:
  assumes "is_text k" and "valid_value v"
  shows "JSONObject_pairs (concat (map encode_char k) @ 0x22 # 0x3A # 0x20 # value_text v
            @ 0x2C # 0x20 # 0x22 # nxt)
         = (case JSONObject_pairs nxt of
              None \<Rightarrow> None
            | Some (pairs, rest) \<Rightarrow> Some ((k, v) # pairs, rest))"
proof -
  have e: "ends_number (0x2C # 0x20 # 0x22 # nxt)"
    by (simp add: ends_number_def is_digit_def)
  have 1: "scanstring (concat (map encode_char k) @ 0x22 # 0x3A # 0x20 # value_text v
            @ 0x2C # 0x20 # 0x22 # nxt)
          = Some (k, 0x3A # 0x20 # value_text v @ 0x2C # 0x20 # 0x22 # nxt)"
    by (rule scanstring_encoded [OF assms(1)])
  have 2: "skip_ws (0x3A # 0x20 # value_text v @ 0x2C # 0x20 # 0x22 # nxt)
             = 0x3A # 0x20 # value_text v @ 0x2C # 0x20 # 0x22 # nxt"
    by (simp add: skip_ws_not_ws WHITESPACE_def)
  have 3: "skip_ws (0x20 # value_text v @ 0x2C # 0x20 # 0x22 # nxt)
             = value_text v @ 0x2C # 0x20 # 0x22 # nxt"
    by (simp only: skip_ws_space skip_ws_encode_value)
  have 4: "scan_once (value_text v @ 0x2C # 0x20 # 0x22 # nxt)
             = Some (v, 0x2C # 0x20 # 0x22 # nxt)"
    by (rule scan_once_value [OF assms(2) e])
  have 5: "skip_ws (0x2C # 0x20 # 0x22 # nxt) = 0x2C # 0x20 # 0x22 # nxt"
    by (simp add: skip_ws_not_ws WHITESPACE_def)
  have 6: "skip_ws (0x20 # 0x22 # nxt) = 0x22 # nxt"
    by (simp add: skip_ws_def WHITESPACE_def)
  have 7: "(0x2C :: nat) \<noteq> 0x7D" by simp
  show ?thesis
    by (subst JSONObject_pairs.simps)
      (simp only: 1 2 3 4 5 6 7 option.case prod.case list.case simp_thms if_True if_False)
qed

lemma item_text_unfold:
  "item_text (k, v) = 0x22 # concat (map encode_char k) @ 0x22 # 0x3A # 0x20 # value_text v"
  by (simp add: item_text_def encode_basestring_ascii_def)

lemma pairs_roundtrip:
  assumes "valid_dict dct" and "dct \<noteq> []"
  shows "JSONObject_pairs (tl (join_items (map item_text dct)) @ 0x7D # rest) = Some (dct, rest)"
  using assms(2) assms(1)
proof (induction dct rule: list_nonempty_induct)
  case (single kv)
  obtain k v where kv: "kv = (k, v)" by (cases kv)
  from single have "is_text k" "valid_value v"
    by (simp_all add: valid_dict_def kv)
  from pairs_last [OF this, of rest] show ?case
    by (simp add: kv item_text_unfold)
next
  case (cons kv dct)
  obtain k v where kv: "kv = (k, v)" by (cases kv)
  from cons.prems have t: "is_text k" "valid_value v" and d: "valid_dict dct"
    by (simp_all add: valid_dict_def kv)
  obtain kv' dct' where dct: "dct = kv' # dct'"
    using cons.hyps by (cases dct) auto
  obtain k' v' where kv': "kv' = (k', v')" by (cases kv')
  have j: "join_items (map item_text dct) = 0x22 # tl (join_items (map item_text dct))"
    by (cases dct') (simp_all add: dct kv' item_text_unfold)
  have "tl (join_items (map item_text (kv # dct))) @ 0x7D # rest
        = concat (map encode_char k) @ 0x22 # 0x3A # 0x20 # value_text v
            @ 0x2C # 0x20 # join_items (map item_text dct) @ 0x7D # rest"
    by (simp add: dct kv item_text_unfold)
  also have "\<dots> = concat (map encode_char k) @ 0x22 # 0x3A # 0x20 # value_text v
            @ 0x2C # 0x20 # 0x22 # (tl (join_items (map item_text dct)) @ 0x7D # rest)"
    by (subst j) simp
  finally show ?case
    using pairs_more [OF t, of "tl (join_items (map item_text dct)) @ 0x7D # rest"]
      cons.IH [OF d]
    by (simp add: kv)
qed

lemma json_loads_dumps_text:
  assumes "valid_dict dct"
  shows "json_loads (dumps_text dct) = Some (dict dct)"
proof (cases "dct = []")
  case True
  then show ?thesis
    by (simp add: json_loads_def dumps_text_def JSONObject_def skip_ws_def WHITESPACE_def
        dict_def)
next
  case False
  obtain kv dct' where dct: "dct = kv # dct'"
    using False by (cases dct) auto
  obtain k v where kv: "kv = (k, v)" by (cases kv)
  have j: "join_items (map item_text dct) = 0x22 # tl (join_items (map item_text dct))"
    by (cases dct') (simp_all add: dct kv item_text_unfold)
  have d0: "dumps_text dct = 0x7B # join_items (map item_text dct) @ [0x7D]"
    using False by (simp add: dumps_text_def)
  have d: "dumps_text dct = 0x7B # 0x22 # (tl (join_items (map item_text dct)) @ [0x7D])"
    unfolding d0 by (subst j) simp
  have o: "JSONObject (0x22 # (tl (join_items (map item_text dct)) @ [0x7D]))
             = Some (dict dct, [])"
    using pairs_roundtrip [OF assms False, of "[]"]
    by (simp add: JSONObject_def skip_ws_not_ws WHITESPACE_def)
  show ?thesis
    unfolding d
    by (simp add: json_loads_def skip_ws_not_ws WHITESPACE_def o skip_ws_def)
qed

lemma encode_value_valid: "valid_value v \<Longrightarrow> encode_value v = Inr (value_text v)"
  by (cases v) (simp_all add: int_repr_def)

lemma encode_item_valid: "valid_value (snd kv) \<Longrightarrow> encode_item kv = Inr (item_text kv)"
  by (simp add: encode_item_def item_text_def encode_value_valid)

lemma encode_items_valid: "valid_dict dct \<Longrightarrow> encode_items dct = Inr (map item_text dct)"
  by (induction dct) (simp_all add: valid_dict_def encode_item_valid)

lemma json_dumps_valid: "valid_dict dct \<Longrightarrow> json_dumps dct = Inr (dumps_text dct)"
  by (simp add: json_dumps_def dumps_text_def encode_items_valid)

lemma json_dumps_digit_limit:
  assumes "max_str_digits < length (nat_digits (nat \<bar>i\<bar>))"
  shows "json_dumps ((k, PInt i) # dct) = Inl DigitLimitError"
  using assms by (simp add: json_dumps_def encode_item_def int_repr_def)

lemma nat_digits_length: "10 ^ k \<le> n \<Longrightarrow> k < length (nat_digits n)"
proof (induction k arbitrary: n)
  case 0
  show ?case
    by (subst nat_digits.simps) simp
next
  case (Suc k)
  from Suc.prems have "10 * 10 ^ k \<le> n" by simp
  then have d: "10 ^ k \<le> n div 10" by simp
  have "(1::nat) \<le> 10 ^ k" by simp
  with \<open>10 * 10 ^ k \<le> n\<close> have "10 \<le> n" by linarith
  then have "nat_digits n = nat_digits (n div 10) @ [0x30 + n mod 10]"
    by (subst nat_digits.simps) simp
  with Suc.IH [OF d] show ?case by simp
qed


section \<open>XML: the encoder escapes character by character\<close>

lemma str_replace_absent: "old \<notin> set s \<Longrightarrow> str_replace old new s = s"
  by (induction s) (simp_all add: str_replace_def)

lemma replace_if_in_eq: "replace_if_in old new s = str_replace old new s"
  by (simp add: replace_if_in_def str_replace_absent)

lemma str_replace_Nil [simp]: "str_replace old new [] = []"
  by (simp add: str_replace_def)

lemma str_replace_Cons [simp]:
  "str_replace old new (c # s) = (if c = old then new else [c]) @ str_replace old new s"
  by (simp add: str_replace_def)

lemma escape_cdata_chars: "escape_cdata (PStr s) = Inr (concat (map cdata_char s))"
proof -
  have "str_replace 0x3E (ascii ''&gt;'') (str_replace 0x3C (ascii ''&lt;'')
          (str_replace 0x26 (ascii ''&amp;'') s)) = concat (map cdata_char s)"
    by (induction s) (simp_all add: cdata_char_def)
  then show ?thesis
    by (simp only: escape_cdata.simps replace_if_in_eq)
qed

lemma escape_attrib_chars: "escape_attrib (PStr s) = Inr (concat (map attrib_char s))"
proof -
  have "str_replace 0x09 (ascii ''&#09;'') (str_replace 0x0A (ascii ''&#10;'')
          (str_replace 0x0D (ascii ''&#13;'') (str_replace 0x22 (ascii ''&quot;'')
            (str_replace 0x3E (ascii ''&gt;'') (str_replace 0x3C (ascii ''&lt;'')
              (str_replace 0x26 (ascii ''&amp;'') s)))))) = concat (map attrib_char s)"
    by (induction s) (simp_all add: attrib_char_def)
  then show ?thesis
    by (simp only: escape_attrib.simps replace_if_in_eq)
qed



lemma parse_reference_predefined:
  "parse_reference (ascii ''amp;'' @ X) = Some (0x26, X)"
  "parse_reference (ascii ''lt;'' @ X) = Some (0x3C, X)"
  "parse_reference (ascii ''gt;'' @ X) = Some (0x3E, X)"
  "parse_reference (ascii ''quot;'' @ X) = Some (0x22, X)"
  by (simp_all add: parse_reference_def reference_value_def is_xml_char_def)

lemma parse_reference_numeric:
  "parse_reference (ascii ''#13;'' @ X) = Some (0x0D, X)"
  "parse_reference (ascii ''#10;'' @ X) = Some (0x0A, X)"
  "parse_reference (ascii ''#09;'' @ X) = Some (0x09, X)"
  by (simp_all add: parse_reference_def reference_value_def is_xml_char_def is_digit_def
      digits_value_def)

lemma cdata_char_no_gt: "0x3E \<notin> set (cdata_char c)"
  by (simp add: cdata_char_def)

lemma cdata_no_gt: "0x3E \<notin> set (concat (map cdata_char t))"
  by (induction t) (simp_all add: cdata_char_no_gt)

lemma no_cdata_end:
  assumes "(0x3E::nat) \<notin> set A"
  shows "take 2 (A @ 0x3C # R) \<noteq> [0x5D, 0x3E]"
proof (cases A)
  case Nil
  then show ?thesis by (cases R) simp_all
next
  case (Cons a A')
  with assms show ?thesis by (cases A') auto
qed

lemma parse_chardata_plain:
  assumes "c \<noteq> 0x3C" and "c \<noteq> 0x26" and "take 2 X \<noteq> [0x5D, 0x3E]"
  shows "parse_chardata (c # X) = append_char c (parse_chardata X)"
  using assms by (simp add: parse_chardata.simps)

lemma parse_chardata_reference:
  assumes "parse_reference (E @ X) = Some (ch, X)" and "parse_chardata X = Some (t, R)"
  shows "parse_chardata ((0x26 # E) @ X) = Some (ch # t, R)"
  using assms by (simp add: parse_chardata.simps append_char_def)

lemma parse_chardata_cdata_char:
  assumes "parse_chardata X = Some (t, R)" and "take 2 X \<noteq> [0x5D, 0x3E]"
  shows "parse_chardata (cdata_char c @ X) = Some (c # t, R)"
proof -
  consider (amp) "c = 0x26" | (lt) "c = 0x3C" | (gt) "c = 0x3E"
    | (plain) "c \<noteq> 0x26" "c \<noteq> 0x3C" "c \<noteq> 0x3E"
    by blast
  then show ?thesis
  proof cases
    case amp
    then have "cdata_char c = 0x26 # ascii ''amp;''" by (simp add: cdata_char_def)
    with parse_chardata_reference [OF parse_reference_predefined(1) assms(1)] amp
    show ?thesis by simp
  next
    case lt
    then have "cdata_char c = 0x26 # ascii ''lt;''" by (simp add: cdata_char_def)
    with parse_chardata_reference [OF parse_reference_predefined(2) assms(1)] lt
    show ?thesis by simp
  next
    case gt
    then have "cdata_char c = 0x26 # ascii ''gt;''" by (simp add: cdata_char_def)
    with parse_chardata_reference [OF parse_reference_predefined(3) assms(1)] gt
    show ?thesis by simp
  next
    case plain
    then have "cdata_char c = [c]" by (simp add: cdata_char_def)
    with parse_chardata_plain [OF plain(2) plain(1) assms(2)] assms(1)
    show ?thesis by (simp add: append_char_def)
  qed
qed

lemma parse_chardata_escaped:
  "parse_chardata (concat (map cdata_char t) @ 0x3C # R) = Some (t, 0x3C # R)"
proof (induction t)
  case Nil
  show ?case by (simp add: parse_chardata.simps)
next
  case (Cons c t)
  have "take 2 (concat (map cdata_char t) @ 0x3C # R) \<noteq> [0x5D, 0x3E]"
    by (rule no_cdata_end [OF cdata_no_gt])
  from parse_chardata_cdata_char [OF Cons.IH this, of c] show ?case by simp
qed

lemma parse_attvalue_reference:
  assumes "parse_reference (E @ X) = Some (ch, X)" and "parse_attvalue 0x22 X = Some (v, R)"
  shows "parse_attvalue 0x22 ((0x26 # E) @ X) = Some (ch # v, R)"
  using assms by (simp add: parse_attvalue.simps append_char_def)

lemma parse_attvalue_plain:
  assumes "c \<noteq> 0x22" and "c \<noteq> 0x3C" and "c \<noteq> 0x26" and "c \<noteq> 0x09" and "c \<noteq> 0x0A"
    and "c \<noteq> 0x0D"
  shows "parse_attvalue 0x22 (c # X) = append_char c (parse_attvalue 0x22 X)"
  using assms by (cases "c = 0x20") (simp_all add: parse_attvalue.simps XML_S_def)

lemma parse_attvalue_attrib_char:
  assumes "parse_attvalue 0x22 X = Some (v, R)"
  shows "parse_attvalue 0x22 (attrib_char c @ X) = Some (c # v, R)"
proof -
  consider (amp) "c = 0x26" | (lt) "c = 0x3C" | (gt) "c = 0x3E" | (quot) "c = 0x22"
    | (cr) "c = 0x0D" | (lf) "c = 0x0A" | (tab) "c = 0x09"
    | (plain) "c \<noteq> 0x26" "c \<noteq> 0x3C" "c \<noteq> 0x3E" "c \<noteq> 0x22" "c \<noteq> 0x0D" "c \<noteq> 0x0A" "c \<noteq> 0x09"
    by blast
  then show ?thesis
  proof cases
    case amp
    then have "attrib_char c = 0x26 # ascii ''amp;''" by (simp add: attrib_char_def)
    with parse_attvalue_reference [OF parse_reference_predefined(1) assms] amp
    show ?thesis by simp
  next
    case lt
    then have "attrib_char c = 0x26 # ascii ''lt;''" by (simp add: attrib_char_def)
    with parse_attvalue_reference [OF parse_reference_predefined(2) assms] lt
    show ?thesis by simp
  next
    case gt
    then have "attrib_char c = 0x26 # ascii ''gt;''" by (simp add: attrib_char_def)
    with parse_attvalue_reference [OF parse_reference_predefined(3) assms] gt
    show ?thesis by simp
  next
    case quot
    then have "attrib_char c = 0x26 # ascii ''quot;''" by (simp add: attrib_char_def)
    with parse_attvalue_reference [OF parse_reference_predefined(4) assms] quot
    show ?thesis by simp
  next
    case cr
    then have "attrib_char c = 0x26 # ascii ''#13;''" by (simp add: attrib_char_def)
    with parse_attvalue_reference [OF parse_reference_numeric(1) assms] cr
    show ?thesis by simp
  next
    case lf
    then have "attrib_char c = 0x26 # ascii ''#10;''" by (simp add: attrib_char_def)
    with parse_attvalue_reference [OF parse_reference_numeric(2) assms] lf
    show ?thesis by simp
  next
    case tab
    then have "attrib_char c = 0x26 # ascii ''#09;''" by (simp add: attrib_char_def)
    with parse_attvalue_reference [OF parse_reference_numeric(3) assms] tab
    show ?thesis by simp
  next
    case plain
    then have "attrib_char c = [c]" by (simp add: attrib_char_def)
    with parse_attvalue_plain [OF plain(4) plain(2) plain(1) plain(7) plain(6) plain(5)] assms
    show ?thesis by (simp add: append_char_def)
  qed
qed

lemma parse_attvalue_escaped:
  "parse_attvalue 0x22 (concat (map attrib_char i) @ 0x22 # R) = Some (i, R)"
proof (induction i)
  case Nil
  show ?case by (simp add: parse_attvalue.simps)
next
  case (Cons c i)
  from parse_attvalue_attrib_char [OF Cons.IH, of c] show ?case by simp
qed


lemma parse_name_tag:
  assumes "is_name tag" and "\<not> name_char c"
  shows "parse_name (tag @ c # R) = Some (tag, c # R)"
proof -
  obtain d ds where tag: "tag = d # ds" and d: "name_start_char d" and ds: "list_all name_char ds"
    using assms(1) by (auto simp: is_name_def split: list.splits)
  have all: "\<forall>x\<in>set tag. name_char x"
    using d ds by (auto simp: tag name_char_def list_all_iff)
  have "takeWhile name_char (tag @ c # R) = tag" "dropWhile name_char (tag @ c # R) = c # R"
    using all assms(2) by (simp_all add: takeWhile_append2 dropWhile_append2)
  then show ?thesis
    using d by (simp add: parse_name_def tag)
qed

lemma parse_attributes_gt: "parse_attributes (0x3E # X) = Some ([], False, X)"
  by (subst parse_attributes.simps) (simp add: skip_S_def XML_S_def)

lemma parse_attributes_short: "parse_attributes (0x20 # 0x2F # 0x3E # X) = Some ([], True, X)"
  by (subst parse_attributes.simps) (simp add: skip_S_def XML_S_def)

lemma parse_attributes_id:
  "parse_attributes (ascii '' id=\"'' @ concat (map attrib_char i) @ 0x22 # 0x3E # X)
     = Some ([(ascii ''id'', i)], False, X)"
  by (subst parse_attributes.simps)
    (simp add: skip_S_def XML_S_def parse_name_def name_start_char_def name_char_def
      parse_attvalue_escaped parse_attributes_gt)

lemma parse_chardata_lt: "parse_chardata (0x3C # X) = Some ([], 0x3C # X)"
  by (simp add: parse_chardata.simps)

lemma parse_content_end:
  assumes "is_name tag"
  shows "parse_content (Suc n) tag (0x3C # 0x2F # tag @ 0x3E # R) = Some ([], R)"
proof -
  have "parse_name (tag @ 0x3E # R) = Some (tag, 0x3E # R)"
    by (rule parse_name_tag [OF assms]) (simp add: name_char_def name_start_char_def)
  then show ?thesis
    by (simp add: parse_chardata_lt skip_S_def XML_S_def text_node_def)
qed

lemma parse_content_text:
  assumes "is_name tag"
  shows "parse_content (Suc n) tag (concat (map cdata_char t) @ 0x3C # 0x2F # tag @ 0x3E # R)
           = Some (text_node t, R)"
proof -
  have "parse_name (tag @ 0x3E # R) = Some (tag, 0x3E # R)"
    by (rule parse_name_tag [OF assms]) (simp add: name_char_def name_start_char_def)
  then show ?thesis
    by (simp add: parse_chardata_escaped skip_S_def XML_S_def)
qed

lemma parse_element_leaf:
  assumes "is_name tag"
  shows "parse_element (Suc (Suc n)) (tl (leaf_xml tag t) @ R)
           = Some (XElem tag [] (text_node t), R)"
proof (cases "t = []")
  case True
  have "parse_name (tag @ 0x20 # 0x2F # 0x3E # R) = Some (tag, 0x20 # 0x2F # 0x3E # R)"
    by (rule parse_name_tag [OF assms]) (simp add: name_char_def name_start_char_def)
  then show ?thesis
    using True by (simp add: leaf_xml_def parse_attributes_short text_node_def)
next
  case False
  let ?X = "concat (map cdata_char t) @ 0x3C # 0x2F # tag @ 0x3E # R"
  have "parse_name (tag @ 0x3E # ?X) = Some (tag, 0x3E # ?X)"
    by (rule parse_name_tag [OF assms]) (simp add: name_char_def name_start_char_def)
  moreover have "parse_content (Suc n) tag ?X = Some (text_node t, R)"
    by (rule parse_content_text [OF assms])
  ultimately show ?thesis
    using False by (simp add: leaf_xml_def parse_attributes_gt del: parse_content.simps)
qed

lemma parse_content_child:
  assumes "c \<noteq> 0x2F"
    and "parse_element n (c # X) = Some (e, Y)"
    and "parse_content n tag Y = Some (siblings, R)"
  shows "parse_content (Suc n) tag (0x3C # c # X) = Some (e # siblings, R)"
  using assms by (simp add: parse_chardata_lt text_node_def)

lemma is_name_tags: "is_name (ascii ''song'')" "is_name (ascii ''title'')" "is_name (ascii ''artist'')"
  by (simp_all add: is_name_def name_start_char_def name_char_def)

lemma leaf_xml_Cons: "leaf_xml tag t = 0x3C # tl (leaf_xml tag t)"
  by (simp add: leaf_xml_def)

lemma tl_leaf_title: "\<exists>X. tl (leaf_xml (ascii ''title'') t) = 0x74 # X"
  by (simp add: leaf_xml_def)

lemma tl_leaf_artist: "\<exists>X. tl (leaf_xml (ascii ''artist'') a) = 0x61 # X"
  by (simp add: leaf_xml_def)

lemma parse_content_song:
  "parse_content (Suc (Suc (Suc (Suc n)))) (ascii ''song'')
     (leaf_xml (ascii ''title'') t @ leaf_xml (ascii ''artist'') a @ ascii ''</song>'')
   = Some ([XElem (ascii ''title'') [] (text_node t), XElem (ascii ''artist'') [] (text_node a)], [])"
proof -
  let ?song = "ascii ''song''"
  have end_tag: "parse_content (Suc (Suc n)) ?song (ascii ''</song>'') = Some ([], [])"
    using parse_content_end [OF is_name_tags(1), of "Suc n" "[]"] by simp
  obtain A where A: "tl (leaf_xml (ascii ''artist'') a) = 0x61 # A"
    using tl_leaf_artist by blast
  have ea: "parse_element (Suc (Suc n)) (0x61 # A @ ascii ''</song>'')
              = Some (XElem (ascii ''artist'') [] (text_node a), ascii ''</song>'')"
    using parse_element_leaf [OF is_name_tags(3), of n a "ascii ''</song>''"]
    by (simp only: A append_Cons)
  have ca: "parse_content (Suc (Suc (Suc n))) ?song (0x3C # 0x61 # A @ ascii ''</song>'')
              = Some ([XElem (ascii ''artist'') [] (text_node a)], [])"
    by (rule parse_content_child [OF _ ea end_tag]) simp
  have la: "leaf_xml (ascii ''artist'') a @ ascii ''</song>'' = 0x3C # 0x61 # A @ ascii ''</song>''"
    by (subst leaf_xml_Cons) (simp only: A append_Cons)
  obtain T where T: "tl (leaf_xml (ascii ''title'') t) = 0x74 # T"
    using tl_leaf_title by blast
  let ?Y = "leaf_xml (ascii ''artist'') a @ ascii ''</song>''"
  have et: "parse_element (Suc (Suc (Suc n))) (0x74 # T @ ?Y)
              = Some (XElem (ascii ''title'') [] (text_node t), ?Y)"
    using parse_element_leaf [OF is_name_tags(2), of "Suc n" t ?Y]
    by (simp only: T append_Cons)
  have ct: "parse_content (Suc (Suc (Suc (Suc n)))) ?song (0x3C # 0x74 # T @ ?Y)
              = Some ([XElem (ascii ''title'') [] (text_node t),
                       XElem (ascii ''artist'') [] (text_node a)], [])"
  proof (rule parse_content_child [OF _ et])
    show "(0x74::nat) \<noteq> 0x2F" by simp
    show "parse_content (Suc (Suc (Suc n))) ?song ?Y
            = Some ([XElem (ascii ''artist'') [] (text_node a)], [])"
      by (simp only: la ca)
  qed
  have lt: "leaf_xml (ascii ''title'') t @ ?Y = 0x3C # 0x74 # T @ ?Y"
    by (subst leaf_xml_Cons) (simp only: T append_Cons)
  show ?thesis
    by (simp only: lt ct)
qed


lemma parse_element_song:
  "parse_element (Suc (Suc (Suc (Suc (Suc n))))) (tl (song_xml i t a))
     = Some (XElem (ascii ''song'') [(ascii ''id'', i)]
               [XElem (ascii ''title'') [] (text_node t),
                XElem (ascii ''artist'') [] (text_node a)], [])"
proof -
  let ?X = "leaf_xml (ascii ''title'') t @ leaf_xml (ascii ''artist'') a @ ascii ''</song>''"
  let ?A = "ascii '' id=\"'' @ concat (map attrib_char i) @ 0x22 # 0x3E # ?X"
  have tl: "tl (song_xml i t a) = ascii ''song'' @ ?A"
    by (simp add: song_xml_def)
  have "?A = 0x20 # tl ?A" by simp
  then have n: "parse_name (ascii ''song'' @ ?A) = Some (ascii ''song'', ?A)"
    using parse_name_tag [OF is_name_tags(1), of "0x20" "tl ?A"]
    by (simp add: name_char_def name_start_char_def)
  show ?thesis
    unfolding tl parse_element.simps n
    by (simp only: option.case prod.case parse_attributes_id parse_content_song if_False)
qed

lemma attrib_char_xml: "is_xml_char c \<Longrightarrow> list_all is_xml_char (attrib_char c)"
  by (auto simp: attrib_char_def is_xml_char_def)

lemma cdata_char_xml: "is_xml_char c \<Longrightarrow> list_all is_xml_char (cdata_char c)"
  by (auto simp: cdata_char_def is_xml_char_def)

lemma attrib_xml: "list_all is_xml_char s \<Longrightarrow> list_all is_xml_char (concat (map attrib_char s))"
  by (induction s) (simp_all add: attrib_char_xml)

lemma cdata_xml: "list_all is_xml_char s \<Longrightarrow> list_all is_xml_char (concat (map cdata_char s))"
  by (induction s) (simp_all add: cdata_char_xml)

lemma leaf_xml_chars:
  assumes "list_all is_xml_char tag" and "list_all is_xml_char s"
  shows "list_all is_xml_char (leaf_xml tag s)"
  using assms cdata_xml [OF assms(2)] by (simp add: leaf_xml_def is_xml_char_def)

lemma song_xml_chars:
  assumes "list_all is_xml_char i" and "list_all is_xml_char t" and "list_all is_xml_char a"
  shows "list_all is_xml_char (song_xml i t a)"
proof -
  have "list_all is_xml_char (leaf_xml (ascii ''title'') t)"
    by (rule leaf_xml_chars [OF _ assms(2)]) (simp add: is_xml_char_def)
  moreover have "list_all is_xml_char (leaf_xml (ascii ''artist'') a)"
    by (rule leaf_xml_chars [OF _ assms(3)]) (simp add: is_xml_char_def)
  ultimately show ?thesis
    using attrib_xml [OF assms(1)] by (simp add: song_xml_def is_xml_char_def)
qed

lemma attrib_no_cr: "0x0D \<notin> set (concat (map attrib_char s))"
  by (induction s) (simp_all add: attrib_char_def)

lemma cdata_no_cr: "0x0D \<notin> set s \<Longrightarrow> 0x0D \<notin> set (concat (map cdata_char s))"
  by (induction s) (simp_all add: cdata_char_def)

lemma leaf_no_cr: "0x0D \<notin> set tag \<Longrightarrow> 0x0D \<notin> set s \<Longrightarrow> 0x0D \<notin> set (leaf_xml tag s)"
  using cdata_no_cr [of s] by (simp add: leaf_xml_def)

lemma song_xml_no_cr:
  assumes "0x0D \<notin> set t" and "0x0D \<notin> set a"
  shows "0x0D \<notin> set (song_xml i t a)"
proof -
  have "0x0D \<notin> set (leaf_xml (ascii ''title'') t)"
    by (rule leaf_no_cr [OF _ assms(1)]) simp
  moreover have "0x0D \<notin> set (leaf_xml (ascii ''artist'') a)"
    by (rule leaf_no_cr [OF _ assms(2)]) simp
  ultimately show ?thesis
    using attrib_no_cr [of i] by (simp add: song_xml_def)
qed

lemma normalize_eol_no_cr: "0x0D \<notin> set s \<Longrightarrow> normalize_eol s = s"
  by (induction s rule: normalize_eol.induct) simp_all

lemma song_xml_length: "\<exists>n. length (song_xml i t a) = Suc (Suc (Suc (Suc (Suc n))))"
proof -
  have "5 \<le> length (song_xml i t a)"
    by (simp add: song_xml_def)
  then obtain k where "length (song_xml i t a) = 5 + k"
    using le_Suc_ex by blast
  then have "length (song_xml i t a) = Suc (Suc (Suc (Suc (Suc k))))"
    by simp
  then show ?thesis ..
qed

lemma xml_parse_song_xml:
  assumes "list_all is_xml_char i" and "list_all is_xml_char t" and "list_all is_xml_char a"
    and "0x0D \<notin> set t" and "0x0D \<notin> set a"
  shows "xml_parse (song_xml i t a)
           = Some (XElem (ascii ''song'') [(ascii ''id'', i)]
                     [XElem (ascii ''title'') [] (text_node t),
                      XElem (ascii ''artist'') [] (text_node a)])"
proof -
  obtain n where n: "length (song_xml i t a) = Suc (Suc (Suc (Suc (Suc n))))"
    using song_xml_length by blast
  have c: "list_all is_xml_char (song_xml i t a)"
    by (rule song_xml_chars [OF assms(1-3)])
  have e: "normalize_eol (song_xml i t a) = song_xml i t a"
    by (rule normalize_eol_no_cr [OF song_xml_no_cr [OF assms(4,5)]])
  have h: "song_xml i t a = 0x3C # tl (song_xml i t a)"
    by (simp add: song_xml_def)
  have k: "skip_S (song_xml i t a) = 0x3C # tl (song_xml i t a)"
    by (subst h) (simp add: skip_S_def XML_S_def)
  show ?thesis
    unfolding xml_parse_def e k n
    by (simp add: c parse_element_song skip_S_def del: parse_element.simps)
qed

lemma serialize_xml_song_xml:
  "serialize_xml (song_tree \<lparr>song_id = PStr i, title = PStr t, artist = PStr a\<rparr>)
     = Inr (song_xml i t a)"
  by (simp add: song_tree_def escape_attrib_chars escape_cdata_chars song_xml_def leaf_xml_def
      del: escape_attrib.simps escape_cdata.simps)


lemma serialize_to_xml_tree:
  "fst (serialize_to_xml song h) = serialize_xml (song_tree song)"
  unfolding serialize_to_xml_def et_Element_def et_SubElement_def set_text_def et_tostring_def
    song_tree_def Let_def
  by (simp add: nth_append nth_list_update numeral_2_eq_2 numeral_3_eq_3
      del: serialize_xml.simps)

lemma WihoutSolidDependecies_serialize_to_xml_tree:
  "fst (WihoutSolidDependecies_serialize_to_xml song h) = serialize_xml (song_tree song)"
  unfolding WihoutSolidDependecies_serialize_to_xml_def et_Element_def et_SubElement_def
    set_text_def et_tostring_def song_tree_def Let_def
  by (simp add: nth_append nth_list_update numeral_2_eq_2 numeral_3_eq_3
      del: serialize_xml.simps)

lemma Statioc_serialize_to_xml_tree:
  "fst (Statioc_serialize_to_xml song h) = serialize_xml (song_tree song)"
  unfolding Statioc_serialize_to_xml_def et_Element_def et_SubElement_def
    set_text_def et_tostring_def song_tree_def Let_def
  by (simp add: nth_append nth_list_update numeral_2_eq_2 numeral_3_eq_3
      del: serialize_xml.simps)

lemma SongSerializerBad_serialize_XML_tree:
  "fst (SongSerializerBad_serialize song XML h) = serialize_xml (song_tree song)"
  unfolding SongSerializerBad_serialize_def et_Element_def et_SubElement_def
    set_text_def et_tostring_def song_tree_def Let_def
  by (simp add: nth_append nth_list_update numeral_2_eq_2 numeral_3_eq_3
      del: serialize_xml.simps)

lemma serialize_JSON: "fst (serialize song JSON h) = json_dumps
    [(ascii ''id'', song_id song), (ascii ''title'', title song), (ascii ''artist'', artist song)]"
  by (simp add: serialize_def get_serializer_def serialize_to_json_def)

lemma serialize_XML: "fst (serialize song XML h) = serialize_xml (song_tree song)"
  by (simp add: serialize_def get_serializer_def serialize_to_xml_tree)

section \<open>Format dispatch\<close>

text \<open>
  Claim C1. For every record and every format tag other than \<^verbatim>\<open>'JSON'\<close> and \<^verbatim>\<open>'XML'\<close>,
  \<^verbatim>\<open>serialize\<close> raises the unsupported-format error (the source's \<^verbatim>\<open>ValueError\<close>) whose
  detail is the offending tag, and this is the very error the factory method raised:
  \<^verbatim>\<open>serialize\<close> neither catches nor wraps it.
\<close>

theorem serialize_unsupported_format:
  assumes "f \<noteq> JSON" and "f \<noteq> XML"
  shows "fst (serialize r f h) = Inl (ValueError f) \<and> get_serializer f = Inl (ValueError f)"
  using assms by (simp add: serialize_def get_serializer_def)

theorem serialize_unsupported_format_witness:
  "PStr (ascii ''YAML'') \<noteq> JSON \<and> PStr (ascii ''YAML'') \<noteq> XML
   \<and> fst (serialize \<lparr>song_id = PStr (ascii ''42''), title = PStr (ascii ''Yesterday''),
                       artist = PStr (ascii ''The Beatles'')\<rparr> (PStr (ascii ''YAML'')) [])
       = Inl (ValueError (PStr (ascii ''YAML'')))
   \<and> get_serializer (PStr (ascii ''YAML'')) = Inl (ValueError (PStr (ascii ''YAML'')))"
proof -
  have a: "PStr (ascii ''YAML'') \<noteq> JSON" by simp
  have b: "PStr (ascii ''YAML'') \<noteq> XML" by simp
  show ?thesis
    using a b serialize_unsupported_format [OF a b] by simp
qed

text \<open>
  Claim C10. The factory method compares the tag with \<^verbatim>\<open>==\<close>: it returns an encoder
  exactly for the strings \<^verbatim>\<open>'JSON'\<close> and \<^verbatim>\<open>'XML'\<close>, and every other value, the lower-case
  spellings \<^verbatim>\<open>'json'\<close> and \<^verbatim>\<open>'xml'\<close> among them, takes the branch that raises.
\<close>

theorem get_serializer_exact_match:
  "((\<exists>enc. get_serializer f = Inr enc) \<longleftrightarrow> f = JSON \<or> f = XML)
   \<and> get_serializer JSON = Inr serialize_to_json
   \<and> get_serializer XML = Inr serialize_to_xml
   \<and> get_serializer (PStr (ascii ''json'')) = Inl (ValueError (PStr (ascii ''json'')))
   \<and> get_serializer (PStr (ascii ''xml'')) = Inl (ValueError (PStr (ascii ''xml'')))"
  by (simp add: get_serializer_def)

section \<open>The two concrete scenarios\<close>

text \<open>
  Claim C2. For the record with id \<^verbatim>\<open>"42"\<close>, title \<^verbatim>\<open>"Yesterday"\<close> and artist
  \<^verbatim>\<open>"The Beatles"\<close>, the format \<^verbatim>\<open>'JSON'\<close> gives exactly the text below, with the keys in
  the order id, title, artist.
\<close>

theorem serialize_JSON_Yesterday:
  \<open>fst (serialize \<lparr>song_id = PStr (ascii ''42''), title = PStr (ascii ''Yesterday''),
                    artist = PStr (ascii ''The Beatles'')\<rparr> JSON h)
     = Inr (ascii ''{"id": "42", "title": "Yesterday", "artist": "The Beatles"}'')\<close>
  unfolding serialize_JSON
  by (simp add: json_dumps_def encode_item_def encode_basestring_ascii_def
      encode_char_def ESCAPE_ASCII_def)

text \<open>
  Claim C3. For the same record the format \<^verbatim>\<open>'XML'\<close> gives exactly the text below: the
  root \<^verbatim>\<open>song\<close> with the attribute \<^verbatim>\<open>id\<close>, the children \<^verbatim>\<open>title\<close> and \<^verbatim>\<open>artist\<close> in
  this order, and no XML declaration.
\<close>

theorem serialize_XML_Yesterday:
  \<open>fst (serialize \<lparr>song_id = PStr (ascii ''42''), title = PStr (ascii ''Yesterday''),
                    artist = PStr (ascii ''The Beatles'')\<rparr> XML h)
     = Inr (ascii
        ''<song id="42"><title>Yesterday</title><artist>The Beatles</artist></song>'')\<close>
  unfolding serialize_XML
  by (simp add: song_tree_def replace_if_in_def)

section \<open>The variants compared\<close>

lemma instance_variants_agree:
  "fst (SongSerializerBad_serialize song format h) = fst (serialize song format h)"
  "fst (SongSerializerWihoutSolidDependecies_serialize song format h)
     = fst (serialize song format h)"
proof -
  show "fst (SongSerializerBad_serialize song format h) = fst (serialize song format h)"
  proof (cases "format = XML")
    case True
    then show ?thesis
      by (simp only: SongSerializerBad_serialize_XML_tree serialize_XML)
  next
    case False
    then show ?thesis
      by (simp add: SongSerializerBad_serialize_def serialize_def get_serializer_def
          serialize_to_json_def)
  qed
  show "fst (SongSerializerWihoutSolidDependecies_serialize song format h)
          = fst (serialize song format h)"
    by (simp add: SongSerializerWihoutSolidDependecies_serialize_def serialize_def
        get_serializer_def serialize_to_json_def WihoutSolidDependecies_serialize_to_json_def
        WihoutSolidDependecies_serialize_to_xml_tree serialize_to_xml_tree)
qed

lemma load_self_fails:
  "load_name [ascii ''song'', ascii ''format'', ascii ''serializer''] (ascii ''self'')
     = Inl (NameError (ascii ''self''))"
  by (simp add: load_name_def module_globals_def)

text \<open>
  Claim C9. Every call of \<^verbatim>\<open>serialize\<close> of \<^verbatim>\<open>SongSerializerStatiocBasicFabric\<close> fails,
  for every record and every format tag, \<^verbatim>\<open>'JSON'\<close> and \<^verbatim>\<open>'XML'\<close> included: called on the
  class its body reads the undefined name \<^verbatim>\<open>self\<close>, and called on an instance the
  arguments do not fit its two parameters. It never returns a serialized string.
\<close>

theorem Statioc_serialize_always_fails:
  "Statioc_serialize_on_class song format h = (Inl (NameError (ascii ''self'')), h)
   \<and> Statioc_serialize_on_instance song format h = (Inl (ArityError 2 3), h)"
  unfolding Statioc_serialize_on_class_def Statioc_serialize_on_instance_def
    Statioc_serialize_body_def load_self_fails
  by (simp add: call_function_def)

text \<open>
  Claim C4. The four variants are meant to give the same result for every record and
  format tag. The three whose methods take \<^verbatim>\<open>self\<close> do (\<open>instance_variants_agree\<close>); the
  last one does not: for the record of the scenarios and the tag \<^verbatim>\<open>'JSON'\<close> it raises
  \<^verbatim>\<open>NameError\<close> where the others return the JSON text.
\<close>

theorem Statioc_variant_differs:
  \<open>fst (Statioc_serialize_on_class
          \<lparr>song_id = PStr (ascii ''42''), title = PStr (ascii ''Yesterday''),
           artist = PStr (ascii ''The Beatles'')\<rparr> JSON [])
     = Inl (NameError (ascii ''self''))
   \<and> fst (serialize
          \<lparr>song_id = PStr (ascii ''42''), title = PStr (ascii ''Yesterday''),
           artist = PStr (ascii ''The Beatles'')\<rparr> JSON [])
     = Inr (ascii ''{"id": "42", "title": "Yesterday", "artist": "The Beatles"}'')\<close>
  unfolding serialize_JSON Statioc_serialize_on_class_def Statioc_serialize_body_def
    load_self_fails
  by (simp add: call_function_def json_dumps_def encode_item_def encode_basestring_ascii_def
      encode_char_def ESCAPE_ASCII_def)

section \<open>The XML encoder on valid records\<close>

text \<open>
  Claim C5, as stated, fails: with an integer id the XML encoder raises ElementTree's
  \<^verbatim>\<open>TypeError\<close>, because an attribute value must be a string.
\<close>

theorem serialize_XML_integer_id_fails:
  "fst (serialize \<lparr>song_id = PInt 42, title = PStr (ascii ''Yesterday''),
                    artist = PStr (ascii ''The Beatles'')\<rparr> XML [])
     = Inl (TypeError (PInt 42))"
  unfolding serialize_XML by (simp add: song_tree_def)

text \<open>
  Claim C5, amended. For every record whose id, title and artist are strings, the XML
  encoder succeeds: \<^verbatim>\<open>serialize(r, 'XML')\<close> returns a string and raises no error.
\<close>

theorem serialize_XML_succeeds:
  "\<exists>out. fst (serialize \<lparr>song_id = PStr i, title = PStr t, artist = PStr a\<rparr> XML h) = Inr out"
  unfolding serialize_XML by (simp add: song_tree_def)

section \<open>The JSON output parsed back\<close>

lemma dict3:
  assumes "k1 \<noteq> k2" "k1 \<noteq> k3" "k2 \<noteq> k3"
  shows "dict [(k1, v1), (k2, v2), (k3, v3)] k1 = Some v1"
    "dict [(k1, v1), (k2, v2), (k3, v3)] k2 = Some v2"
    "dict [(k1, v1), (k2, v2), (k3, v3)] k3 = Some v3"
    "dom (dict [(k1, v1), (k2, v2), (k3, v3)]) = {k1, k2, k3}"
  using assms by (auto simp: dict_def)

text \<open>
  Claim C6, amended. For every record whose title and artist are strings in which no
  high surrogate is directly followed by a low surrogate, and whose id is such a string
  or an integer of at most 4300 decimal digits, the output for \<^verbatim>\<open>'JSON'\<close> is read back
  by the JSON parser as an object with exactly the members \<^verbatim>\<open>id\<close>, \<^verbatim>\<open>title\<close> and
  \<^verbatim>\<open>artist\<close>, equal to the fields of the record: the values pass through unchanged, and
  the escapes the encoder writes are the ones the parser undoes.
\<close>

theorem serialize_JSON_parses_back:
  assumes "valid_value i" and "is_text t" and "is_text a"
  shows "\<exists>out obj.
           fst (serialize \<lparr>song_id = i, title = PStr t, artist = PStr a\<rparr> JSON h) = Inr out
         \<and> json_loads out = Some obj
         \<and> obj (ascii ''id'') = Some i
         \<and> obj (ascii ''title'') = Some (PStr t)
         \<and> obj (ascii ''artist'') = Some (PStr a)
         \<and> dom obj = {ascii ''id'', ascii ''title'', ascii ''artist''}"
proof -
  let ?payload = "[(ascii ''id'', i), (ascii ''title'', PStr t), (ascii ''artist'', PStr a)]"
  have v: "valid_dict ?payload"
    using assms
    by (simp add: valid_dict_def is_text_def is_str_def high_surrogate_def low_surrogate_def)
  have "fst (serialize \<lparr>song_id = i, title = PStr t, artist = PStr a\<rparr> JSON h)
          = json_dumps ?payload"
    unfolding serialize_JSON by simp
  then have s: "fst (serialize \<lparr>song_id = i, title = PStr t, artist = PStr a\<rparr> JSON h)
          = Inr (dumps_text ?payload)"
    by (simp only: json_dumps_valid [OF v])
  have l: "json_loads (dumps_text ?payload) = Some (dict ?payload)"
    by (rule json_loads_dumps_text [OF v])
  have k: "ascii ''id'' \<noteq> ascii ''title''" "ascii ''id'' \<noteq> ascii ''artist''"
    "ascii ''title'' \<noteq> ascii ''artist''"
    by simp_all
  show ?thesis
    using s l dict3 [OF k] by blast
qed

theorem serialize_JSON_parses_back_witness:
  "valid_value (PInt (-7)) \<and> is_text [0x48, 0xD800, 0x22, 0x5C, 0x0A, 0xE9, 0x1F600]
   \<and> is_text (ascii ''The Beatles'')
   \<and> (\<exists>out obj.
           fst (serialize \<lparr>song_id = PInt (-7),
                             title = PStr [0x48, 0xD800, 0x22, 0x5C, 0x0A, 0xE9, 0x1F600],
                             artist = PStr (ascii ''The Beatles'')\<rparr> JSON []) = Inr out
         \<and> json_loads out = Some obj
         \<and> obj (ascii ''id'') = Some (PInt (-7))
         \<and> obj (ascii ''title'') = Some (PStr [0x48, 0xD800, 0x22, 0x5C, 0x0A, 0xE9, 0x1F600])
         \<and> obj (ascii ''artist'') = Some (PStr (ascii ''The Beatles''))
         \<and> dom obj = {ascii ''id'', ascii ''title'', ascii ''artist''})"
proof -
  have "nat_digits 7 = [0x37]"
    by (subst nat_digits.simps) simp
  then have a: "valid_value (PInt (-7))"
    by (simp add: max_str_digits_def)
  have b: "is_text [0x48, 0xD800, 0x22, 0x5C, 0x0A, 0xE9, 0x1F600]"
    by (simp add: is_text_def is_str_def high_surrogate_def low_surrogate_def)
  have c: "is_text (ascii ''The Beatles'')"
    by (simp add: is_text_def is_str_def high_surrogate_def low_surrogate_def)
  show ?thesis
    using a b c serialize_JSON_parses_back [OF a b c, of "[]"] by blast
qed

text \<open>
  Claim C6, as stated, fails. A Python string may hold a high surrogate directly
  followed by a low surrogate as two code points; they are written as two \<^verbatim>\<open>\u\<close>
  escapes, which a JSON parser reads as one code point. The title with the code points
  \<open>0xD83D\<close>, \<open>0xDE00\<close> comes back as the one code point \<open>0x1F600\<close>.
\<close>

theorem serialize_JSON_surrogate_pair_joined:
  \<open>fst (serialize \<lparr>song_id = PStr (ascii ''42''), title = PStr [0xD83D, 0xDE00],
                    artist = PStr (ascii ''The Beatles'')\<rparr> JSON [])
     = Inr (ascii ''{"id": "42", "title": "'' @ [0x5C] @ ascii ''ud83d'' @ [0x5C]
            @ ascii ''ude00", "artist": "The Beatles"}'')
   \<and> json_loads (ascii ''{"id": "42", "title": "'' @ [0x5C] @ ascii ''ud83d'' @ [0x5C]
            @ ascii ''ude00", "artist": "The Beatles"}'')
     = Some [ascii ''id'' \<mapsto> PStr (ascii ''42''), ascii ''title'' \<mapsto> PStr [0x1F600],
             ascii ''artist'' \<mapsto> PStr (ascii ''The Beatles'')]
   \<and> PStr [0x1F600] \<noteq> PStr [0xD83D, 0xDE00]\<close>
proof -
  let ?doc = \<open>ascii ''{"id": "42", "title": "'' @ [0x5C] @ ascii ''ud83d'' @ [0x5C]
            @ ascii ''ude00", "artist": "The Beatles"}''\<close>
  let ?joined = "[(ascii ''id'', PStr (ascii ''42'')), (ascii ''title'', PStr [0x1F600]),
                  (ascii ''artist'', PStr (ascii ''The Beatles''))]"
  have s: "fst (serialize \<lparr>song_id = PStr (ascii ''42''), title = PStr [0xD83D, 0xDE00],
                    artist = PStr (ascii ''The Beatles'')\<rparr> JSON []) = Inr ?doc"
    unfolding serialize_JSON
    by (simp add: json_dumps_def encode_item_def encode_basestring_ascii_def encode_char_def
        ESCAPE_ASCII_def replace_match_def ESCAPE_DCT_def hex4_def hex_digit_def)
  have d: "?doc = dumps_text ?joined"
    by (simp add: dumps_text_def item_text_def encode_basestring_ascii_def encode_char_def
        ESCAPE_ASCII_def replace_match_def ESCAPE_DCT_def hex4_def hex_digit_def)
  have v: "valid_dict ?joined"
    by (simp add: valid_dict_def is_text_def is_str_def high_surrogate_def low_surrogate_def)
  have "json_loads (dumps_text ?joined) = Some (dict ?joined)"
    by (rule json_loads_dumps_text [OF v])
  then have l: "json_loads ?doc
      = Some [ascii ''id'' \<mapsto> PStr (ascii ''42''), ascii ''title'' \<mapsto> PStr [0x1F600],
              ascii ''artist'' \<mapsto> PStr (ascii ''The Beatles'')]"
    by (simp only: d [symmetric]) (simp add: dict_def)
  show ?thesis
    using s l by simp
qed

text \<open>
  An integer id of more than 4300 digits is not written at all: the conversion to text
  raises.
\<close>

lemma serialize_JSON_digit_limit:
  assumes "10 ^ 4300 \<le> \<bar>i\<bar>"
  shows "fst (serialize \<lparr>song_id = PInt i, title = t, artist = a\<rparr> JSON h) = Inl DigitLimitError"
proof -
  have p: "nat ((10::int) ^ 4300) = nat 10 ^ 4300"
    by (rule nat_power_eq) simp
  have t: "nat (10::int) = 10"
    by simp
  have "nat ((10::int) ^ 4300) \<le> nat \<bar>i\<bar>"
    using assms by (rule nat_mono)
  then have "(10::nat) ^ 4300 \<le> nat \<bar>i\<bar>"
    by (simp only: p t)
  then have "4300 < length (nat_digits (nat \<bar>i\<bar>))"
    by (rule nat_digits_length)
  then have "max_str_digits < length (nat_digits (nat \<bar>i\<bar>))"
    by (simp only: max_str_digits_def)
  from json_dumps_digit_limit [OF this] show ?thesis
    unfolding serialize_JSON by simp
qed


section \<open>The XML output parsed back\<close>

lemma element_text_leaf: "element_text (XElem tag attrs (text_node t)) = t"
  by (simp add: text_node_def)

text \<open>
  Claim C7, amended. For every record whose id, title and artist are strings of
  characters that XML allows, and whose title and artist contain no carriage return,
  the output for \<^verbatim>\<open>'XML'\<close> is the document \<open>song_xml\<close>, in which \<^verbatim>\<open>&\<close>, \<^verbatim>\<open><\<close> and \<^verbatim>\<open>>\<close>
  are written \<^verbatim>\<open>&amp;\<close>, \<^verbatim>\<open>&lt;\<close> and \<^verbatim>\<open>&gt;\<close>, and the XML parser reads it back as a
  root element \<^verbatim>\<open>song\<close> whose attribute \<^verbatim>\<open>id\<close> is the record's id, with the children
  \<^verbatim>\<open>title\<close> and \<^verbatim>\<open>artist\<close>, in this order, whose text is the record's title and artist.
\<close>

theorem serialize_XML_parses_back:
  assumes "list_all is_xml_char i" and "list_all is_xml_char t" and "list_all is_xml_char a"
    and "0x0D \<notin> set t" and "0x0D \<notin> set a"
  shows "fst (serialize \<lparr>song_id = PStr i, title = PStr t, artist = PStr a\<rparr> XML h)
           = Inr (song_xml i t a)
       \<and> xml_parse (song_xml i t a)
           = Some (XElem (ascii ''song'') [(ascii ''id'', i)]
                     [XElem (ascii ''title'') [] (text_node t),
                      XElem (ascii ''artist'') [] (text_node a)])
       \<and> element_text (XElem (ascii ''title'') [] (text_node t)) = t
       \<and> element_text (XElem (ascii ''artist'') [] (text_node a)) = a"
  unfolding serialize_XML
  using xml_parse_song_xml [OF assms]
  by (simp only: serialize_xml_song_xml element_text_leaf simp_thms)

theorem serialize_XML_parses_back_witness:
  \<open>list_all is_xml_char (ascii ''4<2'') \<and> list_all is_xml_char (ascii ''Rock & Roll'')
   \<and> list_all is_xml_char [] \<and> 0x0D \<notin> set (ascii ''Rock & Roll'') \<and> 0x0D \<notin> set ([] :: nat list)
   \<and> fst (serialize \<lparr>song_id = PStr (ascii ''4<2''), title = PStr (ascii ''Rock & Roll''),
                       artist = PStr []\<rparr> XML [])
       = Inr (ascii ''<song id="4&lt;2"><title>Rock &amp; Roll</title><artist /></song>'')
   \<and> xml_parse (ascii ''<song id="4&lt;2"><title>Rock &amp; Roll</title><artist /></song>'')
       = Some (XElem (ascii ''song'') [(ascii ''id'', ascii ''4<2'')]
                 [XElem (ascii ''title'') [] [XText (ascii ''Rock & Roll'')],
                  XElem (ascii ''artist'') [] []])\<close>
proof -
  have 1: "list_all is_xml_char (ascii ''4<2'')" by (simp add: is_xml_char_def)
  have 2: "list_all is_xml_char (ascii ''Rock & Roll'')" by (simp add: is_xml_char_def)
  have 3: "list_all is_xml_char []" by simp
  have 4: "0x0D \<notin> set (ascii ''Rock & Roll'')" by simp
  have 5: "0x0D \<notin> set ([] :: nat list)" by simp
  have x: \<open>song_xml (ascii ''4<2'') (ascii ''Rock & Roll'') []
             = ascii ''<song id="4&lt;2"><title>Rock &amp; Roll</title><artist /></song>''\<close>
    by (simp add: song_xml_def leaf_xml_def attrib_char_def cdata_char_def)
  have t: "text_node (ascii ''Rock & Roll'') = [XText (ascii ''Rock & Roll'')]" "text_node [] = []"
    by (simp_all add: text_node_def)
  show ?thesis
    using 1 2 3 4 5 serialize_XML_parses_back [OF 1 2 3 4 5, of "[]"]
    unfolding x t by blast
qed

text \<open>
  Claim C7, as stated, fails: ElementTree writes a carriage return in character data as
  it is, and an XML parser reads the line end \<^verbatim>\<open>\r\n\<close> as \<^verbatim>\<open>\n\<close>. The title
  \<^verbatim>\<open>"Hey\r\nJude"\<close> comes back as \<^verbatim>\<open>"Hey\nJude"\<close>.
\<close>

theorem serialize_XML_carriage_return_lost:
  \<open>fst (serialize \<lparr>song_id = PStr (ascii ''42''),
                    title = PStr (ascii ''Hey'' @ [0x0D, 0x0A] @ ascii ''Jude''),
                    artist = PStr (ascii ''The Beatles'')\<rparr> XML [])
     = Inr (ascii ''<song id="42"><title>Hey'' @ [0x0D, 0x0A]
            @ ascii ''Jude</title><artist>The Beatles</artist></song>'')
   \<and> xml_parse (ascii ''<song id="42"><title>Hey'' @ [0x0D, 0x0A]
            @ ascii ''Jude</title><artist>The Beatles</artist></song>'')
     = Some (XElem (ascii ''song'') [(ascii ''id'', ascii ''42'')]
               [XElem (ascii ''title'') [] [XText (ascii ''Hey'' @ [0x0A] @ ascii ''Jude'')],
                XElem (ascii ''artist'') [] [XText (ascii ''The Beatles'')]])
   \<and> ascii ''Hey'' @ [0x0A] @ ascii ''Jude'' \<noteq> ascii ''Hey'' @ [0x0D, 0x0A] @ ascii ''Jude''\<close>
proof -
  let ?doc = \<open>ascii ''<song id="42"><title>Hey'' @ [0x0D, 0x0A]
            @ ascii ''Jude</title><artist>The Beatles</artist></song>''\<close>
  let ?t = "ascii ''Hey'' @ [0x0A] @ ascii ''Jude''"
  have s: "fst (serialize \<lparr>song_id = PStr (ascii ''42''),
                    title = PStr (ascii ''Hey'' @ [0x0D, 0x0A] @ ascii ''Jude''),
                    artist = PStr (ascii ''The Beatles'')\<rparr> XML []) = Inr ?doc"
    unfolding serialize_XML serialize_xml_song_xml
    by (simp add: song_xml_def leaf_xml_def attrib_char_def cdata_char_def)
  have c: "list_all is_xml_char ?doc"
    by (simp add: is_xml_char_def)
  have e: "normalize_eol ?doc = song_xml (ascii ''42'') ?t (ascii ''The Beatles'')"
    by (simp add: song_xml_def leaf_xml_def attrib_char_def cdata_char_def)
  have k: "skip_S (song_xml (ascii ''42'') ?t (ascii ''The Beatles''))
             = 0x3C # tl (song_xml (ascii ''42'') ?t (ascii ''The Beatles''))"
    by (simp add: song_xml_def skip_S_def XML_S_def)
  have n: "length ?doc = Suc (Suc (Suc (Suc (Suc 68))))"
    by simp
  have p: "xml_parse ?doc
      = Some (XElem (ascii ''song'') [(ascii ''id'', ascii ''42'')]
               [XElem (ascii ''title'') [] (text_node ?t),
                XElem (ascii ''artist'') [] (text_node (ascii ''The Beatles''))])"
  proof -
    have z: "skip_S [] = []" by (simp add: skip_S_def)
    show ?thesis
      by (simp only: xml_parse_def c e k n parse_element_song list.case option.case prod.case
          simp_thms if_True if_False z)
  qed
  have t: "text_node ?t = [XText ?t]" "text_node (ascii ''The Beatles'') = [XText (ascii ''The Beatles'')]"
    by (simp_all add: text_node_def)
  show ?thesis
    using s p unfolding t by simp
qed

text \<open>
  A character that XML does not allow, such as the control character \<^verbatim>\<open>\x07\<close>, is
  written as it is too, and the document is then not well formed.
\<close>

lemma xml_parse_control_character:
  \<open>fst (serialize \<lparr>song_id = PStr (ascii ''42''), title = PStr [0x07],
                    artist = PStr (ascii ''The Beatles'')\<rparr> XML [])
     = Inr (ascii ''<song id="42"><title>'' @ [0x07]
            @ ascii ''</title><artist>The Beatles</artist></song>'')
   \<and> xml_parse (ascii ''<song id="42"><title>'' @ [0x07]
            @ ascii ''</title><artist>The Beatles</artist></song>'') = None\<close>
proof -
  have "fst (serialize \<lparr>song_id = PStr (ascii ''42''), title = PStr [0x07],
                    artist = PStr (ascii ''The Beatles'')\<rparr> XML [])
     = Inr (ascii ''<song id=\"42\"><title>'' @ [0x07]
            @ ascii ''</title><artist>The Beatles</artist></song>'')"
    unfolding serialize_XML serialize_xml_song_xml
    by (simp add: song_xml_def leaf_xml_def attrib_char_def cdata_char_def)
  moreover have "xml_parse (ascii ''<song id=\"42\"><title>'' @ [0x07]
            @ ascii ''</title><artist>The Beatles</artist></song>'') = None"
    by (simp add: xml_parse_def is_xml_char_def)
  ultimately show ?thesis by simp
qed


section \<open>Determinism\<close>

text \<open>
  Claim C8. Two calls of \<^verbatim>\<open>serialize\<close> with the same record and the same format tag give
  the same result, whatever element objects exist when each call is made; in particular
  a second call, made in the store the first one left, repeats the first one's output.
\<close>

theorem serialize_deterministic:
  "fst (serialize r f h) = fst (serialize r f h')
   \<and> fst (serialize r f (snd (serialize r f h))) = fst (serialize r f h)"
proof -
  have any: "fst (serialize r f h1) = fst (serialize r f h2)" for h1 h2
  proof (cases "f = XML")
    case True
    then show ?thesis by (simp only: serialize_XML)
  next
    case False
    then show ?thesis
      by (simp add: serialize_def get_serializer_def serialize_to_json_def)
  qed
  show ?thesis using any by blast
qed

end
